theory Spec2Isabelle
  imports Complex_Main "HOL-Library.Word" "HOL-Library.Multiset"
    "HOL-Library.Product_Lexorder"
begin

section \<open>Strings\<close>

text \<open>
  A JavaScript string is a sequence of 16-bit code units and \<open>length\<close> counts code
  units. \<open>str\<close> turns an ASCII literal into such a sequence.
\<close>

type_synonym codeunit = "16 word"
type_synonym jsstring = "codeunit list"

definition str :: "string \<Rightarrow> jsstring" where
  "str s = map (\<lambda>c. of_nat (of_char c)) s"

text \<open>
  \<open>isSpace\<close> is the class \<open>\s\<close> of a regular expression, which is also what
  \<open>String.prototype.trim\<close> strips: WhiteSpace (TAB, VT, FF, SP, NBSP, ZWNBSP and the
  other space separators) and LineTerminator (LF, CR, LS, PS).
\<close>

definition isSpace :: "codeunit \<Rightarrow> bool" where
  "isSpace c \<longleftrightarrow>
     c = 0x9 \<or> c = 0xA \<or> c = 0xB \<or> c = 0xC \<or> c = 0xD \<or> c = 0x20 \<or> c = 0xA0 \<or>
     c = 0x1680 \<or> (0x2000 \<le> c \<and> c \<le> 0x200A) \<or> c = 0x2028 \<or> c = 0x2029 \<or>
     c = 0x202F \<or> c = 0x205F \<or> c = 0x3000 \<or> c = 0xFEFF"

definition isDigit :: "codeunit \<Rightarrow> bool" where
  "isDigit c \<longleftrightarrow> 0x30 \<le> c \<and> c \<le> 0x39"

definition trim :: "jsstring \<Rightarrow> jsstring" where
  "trim s = rev (dropWhile isSpace (rev (dropWhile isSpace s)))"

definition endsWith :: "jsstring \<Rightarrow> jsstring \<Rightarrow> bool" where
  "endsWith s suffix \<longleftrightarrow>
     length suffix \<le> length s \<and> drop (length s - length suffix) s = suffix"

section \<open>Regular expressions\<close>

text \<open>
  A pattern applied at the start of a string returns the lengths of the ways it can
  match there, in the order in which the backtracking matcher of the language tries
  them; the match that counts is the first. Greedy repetition tries the longest run
  first. \<open>rChar\<close> is a character of a pattern without the flag \<open>i\<close>, \<open>rLit\<close> one of
  a pattern with it, which compares after \<open>upper\<close>: the patterns of this program hold
  ASCII characters only, and a code unit above 127 never canonicalises to one below.
\<close>

type_synonym matcher = "jsstring \<Rightarrow> nat list"

definition upper :: "codeunit \<Rightarrow> codeunit" where
  "upper c = (if 0x61 \<le> c \<and> c \<le> 0x7A then c - 0x20 else c)"

definition rClass :: "(codeunit \<Rightarrow> bool) \<Rightarrow> matcher" where
  "rClass P s = (case s of [] \<Rightarrow> [] | c # cs \<Rightarrow> if P c then [1] else [])"

definition rChar :: "codeunit \<Rightarrow> matcher" where
  "rChar p = rClass (\<lambda>c. c = p)"

definition rLit :: "codeunit \<Rightarrow> matcher" where
  "rLit p = rClass (\<lambda>c. upper c = upper p)"

definition rEmpty :: matcher where
  "rEmpty s = [0]"

definition rSeq :: "matcher \<Rightarrow> matcher \<Rightarrow> matcher" where
  "rSeq m1 m2 s = concat (map (\<lambda>n. map (\<lambda>k. n + k) (m2 (drop n s))) (m1 s))"

definition rAlt :: "matcher \<Rightarrow> matcher \<Rightarrow> matcher" where
  "rAlt m1 m2 s = m1 s @ m2 s"

definition rOpt :: "matcher \<Rightarrow> matcher" where
  "rOpt m = rAlt m rEmpty"

fun rStar :: "(codeunit \<Rightarrow> bool) \<Rightarrow> matcher" where
  "rStar P [] = [0]"
| "rStar P (c # cs) = (if P c then map Suc (rStar P cs) @ [0] else [0])"

definition rPlus :: "(codeunit \<Rightarrow> bool) \<Rightarrow> matcher" where
  "rPlus P = rSeq (rClass P) (rStar P)"

definition rWord :: "jsstring \<Rightarrow> matcher" where
  "rWord w = foldr (\<lambda>p m. rSeq (rLit p) m) w rEmpty"

definition rAlts :: "matcher list \<Rightarrow> matcher" where
  "rAlts ms = foldr rAlt ms (\<lambda>s. [])"

definition rLookahead :: "matcher \<Rightarrow> matcher" where
  "rLookahead m s = (if m s = [] then [] else [0])"

text \<open>The length of the first match at the start of \<open>s\<close>, if there is one.\<close>

definition matchLen :: "matcher \<Rightarrow> jsstring \<Rightarrow> nat option" where
  "matchLen m s = (case m s of [] \<Rightarrow> None | n # _ \<Rightarrow> Some n)"

text \<open>
  \<open>s.match(re)[0]\<close> for a global pattern: the text of the leftmost match, \<open>None\<close>
  where \<open>match\<close> returns null.
\<close>

fun firstMatch :: "matcher \<Rightarrow> jsstring \<Rightarrow> jsstring option" where
  "firstMatch m [] = (case matchLen m [] of None \<Rightarrow> None | Some n \<Rightarrow> Some [])"
| "firstMatch m (c # cs) =
     (case matchLen m (c # cs) of
        Some n \<Rightarrow> Some (take n (c # cs))
      | None \<Rightarrow> firstMatch m cs)"

text \<open>
  \<open>String.prototype.split\<close> with a pattern and no limit. \<open>acc\<close> holds, reversed, the
  text from the start \<open>p\<close> of the current piece to the position \<open>q\<close> under test, and
  the last argument is the text from \<open>q\<close> on. No match at \<open>q\<close>, or an empty match
  that ends at \<open>p\<close>, moves \<open>q\<close> one code unit on; any other match closes the piece
  and starts the next at the end of the match.
\<close>

function splitLoop :: "matcher \<Rightarrow> jsstring \<Rightarrow> jsstring \<Rightarrow> jsstring list" where
  "splitLoop m acc [] = [rev acc]"
| "splitLoop m acc (c # cs) =
     (case matchLen m (c # cs) of
        None \<Rightarrow> splitLoop m (c # acc) cs
      | Some n \<Rightarrow>
          if n = 0 \<and> acc = [] then splitLoop m (c # acc) cs
          else rev acc # splitLoop m [] (drop n (c # cs)))"
  by pat_completeness auto
termination
  by (relation "measures [\<lambda>(m, acc, s). length s, \<lambda>(m, acc, s). length acc]") auto

definition jsSplit :: "matcher \<Rightarrow> jsstring \<Rightarrow> jsstring list" where
  "jsSplit m s = (if s = [] then (if m [] = [] then [[]] else []) else splitLoop m [] s)"

section \<open>The chunker\<close>

text \<open>
  The date pattern
  \<open>(January|...|December)\s+\d{1,2},\s+\d{4}\<close> with the flags \<open>g\<close> and \<open>i\<close>.
\<close>

definition months :: "jsstring list" where
  "months = map str [''January'', ''February'', ''March'', ''April'', ''May'', ''June'',
     ''July'', ''August'', ''September'', ''October'', ''November'', ''December'']"

definition datePattern :: matcher where
  "datePattern =
     rSeq (rAlts (map rWord months))
    (rSeq (rPlus isSpace)
    (rSeq (rSeq (rClass isDigit) (rOpt (rClass isDigit)))
    (rSeq (rLit 0x2C)
    (rSeq (rPlus isSpace)
    (rSeq (rClass isDigit) (rSeq (rClass isDigit) (rSeq (rClass isDigit) (rClass isDigit))))))))"

text \<open>The paragraph separator \<open>\n\s*\n\<close>.\<close>

definition paragraphSep :: matcher where
  "paragraphSep = rSeq (rChar 0xA) (rSeq (rStar isSpace) (rChar 0xA))"

text \<open>A chunk before its embedding: \<open>Omit<Chunk, 'embedding'>\<close>.\<close>

record rawChunk =
  text' :: jsstring
  title :: jsstring
  date :: jsstring

text \<open>The three variables of the walk over the paragraphs of one newsletter.\<close>

record walk =
  result :: "rawChunk list"
  buffer :: jsstring
  currentTitle :: jsstring

definition flush :: "jsstring \<Rightarrow> walk \<Rightarrow> walk" where
  "flush d w =
     w\<lparr>result := result w @ [\<lparr>text' = trim (buffer w), title = currentTitle w, date = d\<rparr>],
       buffer := []\<rparr>"

text \<open>The condition of the header test on the trimmed paragraph.\<close>

definition isHeader :: "jsstring \<Rightarrow> bool" where
  "isHeader para \<longleftrightarrow> length para < 80 \<and> \<not> endsWith para (str ''.'') \<and> length para > 5"

text \<open>One iteration of the loop over the paragraphs.\<close>

definition walkStep :: "jsstring \<Rightarrow> walk \<Rightarrow> jsstring \<Rightarrow> walk" where
  "walkStep d w p =
     (let para = trim p in
      if isHeader para then
        (if length (buffer w) > 200 then flush d w else w)\<lparr>currentTitle := para\<rparr>
      else
        (let w' = w\<lparr>buffer := buffer w @ para @ [0xA, 0xA]\<rparr>
         in if length (buffer w') > 800 then flush d w' else w'))"

definition rawNewsletters :: "jsstring \<Rightarrow> jsstring list" where
  "rawNewsletters content =
     filter (\<lambda>p. length (trim p) > 200) (jsSplit (rLookahead datePattern) content)"

definition newsletterDate :: "jsstring \<Rightarrow> jsstring" where
  "newsletterDate nl =
     (case firstMatch datePattern nl of Some d \<Rightarrow> d | None \<Rightarrow> str ''Unknown'')"

definition paragraphs :: "jsstring \<Rightarrow> jsstring list" where
  "paragraphs nl = filter (\<lambda>p. length (trim p) > 50) (jsSplit paragraphSep nl)"

text \<open>The body of the loop over the newsletters: \<open>res\<close> is the shared result array.\<close>

definition processNewsletter :: "rawChunk list \<Rightarrow> jsstring \<Rightarrow> rawChunk list" where
  "processNewsletter res nl =
     (let d = newsletterDate nl;
          w = foldl (walkStep d) \<lparr>result = res, buffer = [], currentTitle = d\<rparr> (paragraphs nl)
      in if length (buffer w) > 100 then result (flush d w) else result w)"

definition splitIntoChunks :: "jsstring \<Rightarrow> rawChunk list" where
  "splitIntoChunks content = foldl processNewsletter [] (rawNewsletters content)"

section \<open>Similarity and ranking\<close>

text \<open>A chunk with its embedding: the interface \<open>Chunk\<close>.\<close>

record chunk = rawChunk +
  embedding :: "real list"

text \<open>
  The values of the type \<open>number\<close>: a number, which is a real, an infinity or \<open>NaN\<close>.
  The two zeros of the language are the one zero of the reals; they are equal for
  \<open>==\<close>, for \<open>>=\<close> and for \<open>sort\<close>.
\<close>

datatype jsnum = Num real | PosInf | NegInf | NaN

text \<open>
  The quotient of two reals as the language gives it: the quotient of zero by zero is
  \<open>NaN\<close>, and the quotient of a number other than zero by zero is an infinity. The
  divisor below is a product of square roots, so a zero there is the positive zero and
  the infinity has the sign of the dividend.
\<close>

definition jsDivide :: "real \<Rightarrow> real \<Rightarrow> jsnum" where
  "jsDivide x y =
     (if y = 0 then (if x = 0 then NaN else if 0 < x then PosInf else NegInf)
      else Num (x / y))"

text \<open>
  \<open>cosineSimilarity\<close> in exact arithmetic: every sum, product, root and quotient is
  that of the reals, without the rounding, the overflow and the underflow of double
  precision. This is the function whose symmetry is stated below; the ranking does not
  use it, and takes the scores as the machine computes them (see \<open>scoreOf\<close>).

  The loop of \<open>cosineSimilarity\<close> over the indices of \<open>a\<close>, on the accumulators
  \<open>(dot, normA, normB)\<close>. Where \<open>b\<close> has no element at an index of \<open>a\<close>, \<open>b[i]\<close> is
  undefined and its products are \<open>NaN\<close>, which \<open>dot\<close> and \<open>normB\<close> then stay: the
  result is \<open>None\<close>.
\<close>

fun simLoop :: "real list \<Rightarrow> real list \<Rightarrow> real \<times> real \<times> real \<Rightarrow> (real \<times> real \<times> real) option"
  where
  "simLoop [] b acc = Some acc"
| "simLoop (x # a) [] acc = None"
| "simLoop (x # a) (y # b) (dot, normA, normB) =
     simLoop a b (dot + x * y, normA + x * x, normB + y * y)"

definition cosineSimilarity :: "real list \<Rightarrow> real list \<Rightarrow> jsnum" where
  "cosineSimilarity a b =
     (case simLoop a b (0, 0, 0) of
        None \<Rightarrow> NaN
      | Some (dot, normA, normB) \<Rightarrow> jsDivide dot (sqrt normA * sqrt normB))"

text \<open>
  The difference \<open>x - y\<close> of the comparator, and the test \<open>v > 0\<close> that \<open>sort\<close> makes of
  it. The machine rounds the difference of two numbers, and \<open>sort\<close> reads its sign only,
  which the rounding keeps: the difference of two doubles that are not equal is at
  least the smallest double in size, so it is never rounded to zero, and where it
  overflows it is the infinity of its sign.
\<close>

fun jsMinus :: "jsnum \<Rightarrow> jsnum \<Rightarrow> jsnum" where
  "jsMinus (Num x) (Num y) = Num (x - y)"
| "jsMinus NaN y = NaN"
| "jsMinus x NaN = NaN"
| "jsMinus PosInf PosInf = NaN"
| "jsMinus NegInf NegInf = NaN"
| "jsMinus PosInf y = PosInf"
| "jsMinus NegInf y = NegInf"
| "jsMinus (Num x) PosInf = NegInf"
| "jsMinus (Num x) NegInf = PosInf"

fun positive :: "jsnum \<Rightarrow> bool" where
  "positive (Num x) = (0 < x)"
| "positive PosInf = True"
| "positive NegInf = False"
| "positive NaN = False"

text \<open>The comparison \<open>x >= y\<close> of the language: false as soon as one side is \<open>NaN\<close>.\<close>

fun jsGe :: "jsnum \<Rightarrow> jsnum \<Rightarrow> bool" where
  "jsGe NaN y = False"
| "jsGe x NaN = False"
| "jsGe PosInf y = True"
| "jsGe x NegInf = True"
| "jsGe (Num x) (Num y) = (y \<le> x)"
| "jsGe (Num x) PosInf = False"
| "jsGe NegInf y = False"

text \<open>
  \<open>Array.prototype.sort\<close> with a comparator. The language requires the sort to be
  stable, and for a consistent comparator that fixes the result, which insertion from
  the right computes: \<open>x\<close> stood before every element of \<open>ys\<close> and moves behind \<open>y\<close> only
  when \<open>cmp x y > 0\<close>; a comparator result of \<open>NaN\<close> counts as zero. Where the
  comparator is not consistent (a score that is \<open>NaN\<close>) the language leaves the order to
  the implementation, and \<open>jsSort\<close> is one of the possible outcomes.
\<close>

fun insertBy :: "('a \<Rightarrow> 'a \<Rightarrow> jsnum) \<Rightarrow> 'a \<Rightarrow> 'a list \<Rightarrow> 'a list" where
  "insertBy cmp x [] = [x]"
| "insertBy cmp x (y # ys) = (if positive (cmp x y) then y # insertBy cmp x ys else x # y # ys)"

definition jsSort :: "('a \<Rightarrow> 'a \<Rightarrow> jsnum) \<Rightarrow> 'a list \<Rightarrow> 'a list" where
  "jsSort cmp xs = foldr (insertBy cmp) xs []"

text \<open>
  \<open>xs.slice(0, k)\<close> for an integer \<open>k\<close>: a negative \<open>k\<close> counts from the end of the
  array.
\<close>

definition jsSlice0 :: "int \<Rightarrow> 'a list \<Rightarrow> 'a list" where
  "jsSlice0 k xs = (if k < 0 then take (nat (int (length xs) + k)) xs else take (nat k) xs)"

text \<open>
  The program computes its scores in double precision, where each operation of
  \<open>cosineSimilarity\<close> is rounded and can overflow or underflow: a score can differ from
  the exact value in its last digits, be an infinity, or be \<open>NaN\<close> where the exact value
  is a number. The ranking therefore takes the function that computes the scores as a
  parameter: \<open>sim a b\<close> is what the call \<open>cosineSimilarity(a, b)\<close> returns on the machine.
  What is proved of the ranking holds for every \<open>sim\<close>, and so for that one.
\<close>

type_synonym similarity = "real list \<Rightarrow> real list \<Rightarrow> jsnum"

text \<open>
  The value that \<open>findRelevantChunks\<close> returns, from the embedding of the query, the
  chunk list and \<open>topK\<close>: each chunk is paired with its score, the pairs are sorted by
  \<open>(a, b) => b.score - a.score\<close>, cut by \<open>slice(0, topK)\<close>, and the chunks taken out again.
\<close>

definition scoreOf :: "similarity \<Rightarrow> real list \<Rightarrow> chunk \<Rightarrow> jsnum" where
  "scoreOf sim queryEmb c = sim queryEmb (embedding c)"

definition scoreChunks :: "similarity \<Rightarrow> real list \<Rightarrow> chunk list \<Rightarrow> (chunk \<times> jsnum) list"
  where
  "scoreChunks sim queryEmb cs = map (\<lambda>c. (c, scoreOf sim queryEmb c)) cs"

definition byScore :: "chunk \<times> jsnum \<Rightarrow> chunk \<times> jsnum \<Rightarrow> jsnum" where
  "byScore a b = jsMinus (snd b) (snd a)"

definition rankChunks :: "similarity \<Rightarrow> real list \<Rightarrow> chunk list \<Rightarrow> int \<Rightarrow> chunk list"
  where
  "rankChunks sim queryEmb cs topK =
     map fst (jsSlice0 topK (jsSort byScore (scoreChunks sim queryEmb cs)))"

section \<open>Values read from JSON\<close>

text \<open>
  What \<open>JSON.parse\<close> and \<open>res.json()\<close> return. An object is the list of its own
  properties, each key once; \<open>undefined\<close> is \<open>None\<close> in \<open>jsval option\<close>.
\<close>

datatype jsval =
  JNull | JBool bool | JNum real | JStr jsstring | JArr "jsval list"
  | JObj "(jsstring \<times> jsval) list"

text \<open>What is thrown. Every exception of this program is an \<open>Error\<close> object.\<close>

datatype error = TypeError | SyntaxError | IOError | NotConfigured | BackendError

definition andThen :: "error + 'a \<Rightarrow> ('a \<Rightarrow> error + 'b) \<Rightarrow> error + 'b" where
  "andThen m f = (case m of Inl e \<Rightarrow> Inl e | Inr v \<Rightarrow> f v)"

text \<open>\<open>try { body } catch (e) { handler }\<close>.\<close>

definition tryCatch :: "error + 'a \<Rightarrow> (error \<Rightarrow> error + 'a) \<Rightarrow> error + 'a" where
  "tryCatch body handler = (case body of Inl e \<Rightarrow> handler e | Inr v \<Rightarrow> Inr v)"

text \<open>
  The property names the program reads. None of them is a property of the prototypes
  of arrays, strings, numbers or booleans, except \<open>length\<close>, which arrays and strings
  have as their own.
\<close>

datatype jsprop = Length | Embedding | Choices | Message | Content | Query

fun propName :: "jsprop \<Rightarrow> jsstring" where
  "propName Length = str ''length''"
| "propName Embedding = str ''embedding''"
| "propName Choices = str ''choices''"
| "propName Message = str ''message''"
| "propName Content = str ''content''"
| "propName Query = str ''query''"

text \<open>\<open>v.p\<close>: a \<open>TypeError\<close> on \<open>null\<close> and \<open>undefined\<close>.\<close>

fun getProp :: "jsval option \<Rightarrow> jsprop \<Rightarrow> error + jsval option" where
  "getProp None p = Inl TypeError"
| "getProp (Some JNull) p = Inl TypeError"
| "getProp (Some (JObj kvs)) p = Inr (map_of kvs (propName p))"
| "getProp (Some (JArr xs)) p = Inr (if p = Length then Some (JNum (of_nat (length xs))) else None)"
| "getProp (Some (JStr s)) p = Inr (if p = Length then Some (JNum (of_nat (length s))) else None)"
| "getProp (Some (JBool b)) p = Inr None"
| "getProp (Some (JNum x)) p = Inr None"

text \<open>\<open>v[0]\<close>.\<close>

fun getIndex0 :: "jsval option \<Rightarrow> error + jsval option" where
  "getIndex0 None = Inl TypeError"
| "getIndex0 (Some JNull) = Inl TypeError"
| "getIndex0 (Some (JObj kvs)) = Inr (map_of kvs (str ''0''))"
| "getIndex0 (Some (JArr xs)) = Inr (case xs of [] \<Rightarrow> None | x # _ \<Rightarrow> Some x)"
| "getIndex0 (Some (JStr s)) = Inr (case s of [] \<Rightarrow> None | c # _ \<Rightarrow> Some (JStr [c]))"
| "getIndex0 (Some (JBool b)) = Inr None"
| "getIndex0 (Some (JNum x)) = Inr None"

text \<open>The optional chaining \<open>v?.p\<close> and \<open>v?.[0]\<close>.\<close>

definition nullish :: "jsval option \<Rightarrow> bool" where
  "nullish v \<longleftrightarrow> v = None \<or> v = Some JNull"

definition optProp :: "jsval option \<Rightarrow> jsprop \<Rightarrow> error + jsval option" where
  "optProp v p = (if nullish v then Inr None else getProp v p)"

definition optIndex0 :: "jsval option \<Rightarrow> error + jsval option" where
  "optIndex0 v = (if nullish v then Inr None else getIndex0 v)"

text \<open>The truth value of a condition.\<close>

fun truthy :: "jsval option \<Rightarrow> bool" where
  "truthy None = False"
| "truthy (Some JNull) = False"
| "truthy (Some (JBool b)) = b"
| "truthy (Some (JNum x)) = (x \<noteq> 0)"
| "truthy (Some (JStr s)) = (s \<noteq> [])"
| "truthy (Some (JArr xs)) = True"
| "truthy (Some (JObj kvs)) = True"

text \<open>
  \<open>v > 0\<close>. For a string, an array or an object the language first converts \<open>v\<close> to a
  number, which may throw; that conversion is not modelled and its outcome is the
  parameter \<open>coerce\<close>.
\<close>

fun gtZero :: "(jsval \<Rightarrow> error + bool) \<Rightarrow> jsval option \<Rightarrow> error + bool" where
  "gtZero coerce None = Inr False"
| "gtZero coerce (Some JNull) = Inr False"
| "gtZero coerce (Some (JBool b)) = Inr b"
| "gtZero coerce (Some (JNum x)) = Inr (0 < x)"
| "gtZero coerce (Some v) = coerce v"

section \<open>The environment\<close>

text \<open>
  The two credentials of the process environment, and the three remote calls. A remote
  call settles to a value or is rejected. \<open>chatCompletion\<close> takes the key, the system
  prompt and the query and gives the parsed body of the response (\<open>res.json()\<close>);
  \<open>generateContent\<close> takes the prompt and gives \<open>result.response.text()\<close>;
  \<open>embedContent\<close> takes the text and gives \<open>result.embedding.values\<close>, and since the same
  text may fail once and succeed later, it also takes the index of the chunk in the
  population loop.
\<close>

record env =
  OPENROUTER_API_KEY :: "jsstring option"
  GEMINI_API_KEY :: "jsstring option"

record services =
  chatCompletion :: "jsstring \<Rightarrow> jsstring \<Rightarrow> jsstring \<Rightarrow> error + jsval"
  generateContent :: "jsstring \<Rightarrow> error + jsstring"
  embedContent :: "nat \<Rightarrow> jsstring \<Rightarrow> error + real list"

text \<open>A credential counts when it is set and not the empty string.\<close>

fun configured :: "jsstring option \<Rightarrow> bool" where
  "configured None = False"
| "configured (Some k) = (k \<noteq> [])"

section \<open>The answer generator\<close>

definition unavailableMessage :: jsstring where
  "unavailableMessage =
     str ''I'' @ [0x27] @ str ''m currently unavailable. Please check API configuration.''"

text \<open>
  The system prompt is a fixed text of instructions, here the parameter \<open>rules\<close>,
  followed by the context.
\<close>

definition systemPrompt :: "jsstring \<Rightarrow> jsstring \<Rightarrow> jsstring" where
  "systemPrompt rules context = rules @ context"

text \<open>\<open>data.choices?.[0]?.message?.content\<close>, and the same path without the question marks.\<close>

definition messageContent :: "jsval \<Rightarrow> error + jsval option" where
  "messageContent data =
     andThen (getProp (Some data) Choices) (\<lambda>c.
     andThen (optIndex0 c) (\<lambda>e.
     andThen (optProp e Message) (\<lambda>m.
     optProp m Content)))"

definition strictContent :: "jsval \<Rightarrow> error + jsval option" where
  "strictContent data =
     andThen (getProp (Some data) Choices) (\<lambda>c.
     andThen (getIndex0 c) (\<lambda>e.
     andThen (getProp e Message) (\<lambda>m.
     getProp m Content)))"

text \<open>
  The body of each \<open>try\<close> block: \<open>Inr (Some v)\<close> when it returns \<open>v\<close> from the function,
  \<open>Inr None\<close> when it runs to its end, \<open>Inl e\<close> when it throws.
\<close>

definition primaryAttempt ::
  "services \<Rightarrow> jsstring \<Rightarrow> jsstring \<Rightarrow> jsstring \<Rightarrow> error + jsval option option" where
  "primaryAttempt svc key prompt query =
     andThen (chatCompletion svc key prompt query) (\<lambda>data.
     andThen (messageContent data) (\<lambda>c.
       if truthy c then andThen (strictContent data) (\<lambda>v. Inr (Some v)) else Inr None))"

definition fallbackAttempt :: "services \<Rightarrow> jsstring \<Rightarrow> jsstring \<Rightarrow> error + jsval option option"
  where
  "fallbackAttempt svc prompt query =
     andThen (generateContent svc (prompt @ [0xA, 0xA] @ str ''Question: '' @ query)) (\<lambda>t.
       Inr (Some (Some (JStr t))))"

definition generateAnswer ::
  "env \<Rightarrow> services \<Rightarrow> jsstring \<Rightarrow> jsstring \<Rightarrow> jsstring \<Rightarrow> error + jsval option" where
  "generateAnswer ev svc rules query context =
     (let prompt = systemPrompt rules context in
      andThen
        (case OPENROUTER_API_KEY ev of
           Some key \<Rightarrow>
             if configured (Some key)
             then tryCatch (primaryAttempt svc key prompt query) (\<lambda>e. Inr None)
             else Inr None
         | None \<Rightarrow> Inr None)
        (\<lambda>r1. case r1 of
           Some v \<Rightarrow> Inr v
         | None \<Rightarrow>
             andThen
               (if configured (GEMINI_API_KEY ev)
                then tryCatch (fallbackAttempt svc prompt query) (\<lambda>e. Inr None)
                else Inr None)
               (\<lambda>r2. case r2 of
                  Some v \<Rightarrow> Inr v
                | None \<Rightarrow> Inr (Some (JStr unavailableMessage)))))"

section \<open>The cache and its population\<close>

text \<open>
  What is at the path of the cache: nothing, a file that cannot be read, a file that is
  not JSON, or a file that parses to a value.
\<close>

datatype cacheFile = Missing | Unreadable | Malformed | Contents jsval

text \<open>
  The two variables of the module, and the files. \<open>chunks\<close> holds what was assigned
  to it: the value parsed from the cache, or the array built by the population, written
  as the JSON value it serialises to. \<open>corpus\<close> is the text of the newsletters, \<open>None\<close>
  when it cannot be read, and \<open>cacheWritable\<close> says whether writing the cache succeeds.
\<close>

record system =
  chunks :: jsval
  isInitialized :: bool
  cache :: cacheFile
  corpus :: "jsstring option"
  cacheWritable :: bool

text \<open>\<open>JSON.parse(fs.readFileSync(CACHE_PATH, 'utf-8'))\<close>.\<close>

fun readCache :: "cacheFile \<Rightarrow> error + jsval" where
  "readCache Missing = Inl IOError"
| "readCache Unreadable = Inl IOError"
| "readCache Malformed = Inl SyntaxError"
| "readCache (Contents v) = Inr v"

text \<open>The condition \<open>cached.length > 0 && cached[0].embedding\<close>.\<close>

definition cacheUsable :: "(jsval \<Rightarrow> error + bool) \<Rightarrow> jsval \<Rightarrow> error + bool" where
  "cacheUsable coerce cached =
     andThen (getProp (Some cached) Length) (\<lambda>l.
     andThen (gtZero coerce l) (\<lambda>pos.
       if \<not> pos then Inr False
       else andThen (getIndex0 (Some cached)) (\<lambda>first.
            andThen (getProp first Embedding) (\<lambda>e. Inr (truthy e)))))"

text \<open>
  The block that tries the cache: \<open>Inr (Some cached)\<close> when the cache is taken,
  \<open>Inr None\<close> when the function goes on to generate the embeddings.
\<close>

definition loadCache :: "(jsval \<Rightarrow> error + bool) \<Rightarrow> cacheFile \<Rightarrow> error + jsval option" where
  "loadCache coerce f =
     (if f = Missing then Inr None
      else tryCatch
        (andThen (readCache f) (\<lambda>cached.
         andThen (cacheUsable coerce cached) (\<lambda>usable.
           Inr (if usable then Some cached else None))))
        (\<lambda>e. Inr None))"

text \<open>\<open>getEmbedding\<close>, called for the chunk of index \<open>i\<close>.\<close>

definition getEmbedding :: "env \<Rightarrow> services \<Rightarrow> nat \<Rightarrow> jsstring \<Rightarrow> error + real list" where
  "getEmbedding ev svc i t =
     (if configured (GEMINI_API_KEY ev) then embedContent svc i (take 2000 t)
      else Inl NotConfigured)"

definition withEmbedding :: "rawChunk \<Rightarrow> real list \<Rightarrow> chunk" where
  "withEmbedding c e = \<lparr>text' = text' c, title = title c, date = date c, embedding = e\<rparr>"

text \<open>
  The population loop from index \<open>i\<close> on, with \<open>embeddedChunks\<close> as accumulator: a chunk
  whose embedding fails is logged and left out. The pause after every tenth call changes
  no value.
\<close>

fun embedLoop ::
  "env \<Rightarrow> services \<Rightarrow> nat \<Rightarrow> rawChunk list \<Rightarrow> chunk list \<Rightarrow> error + chunk list" where
  "embedLoop ev svc i [] embeddedChunks = Inr embeddedChunks"
| "embedLoop ev svc i (c # cs) embeddedChunks =
     andThen
       (tryCatch
          (andThen (getEmbedding ev svc i (text' c)) (\<lambda>e.
             Inr (embeddedChunks @ [withEmbedding c e])))
          (\<lambda>e. Inr embeddedChunks))
       (embedLoop ev svc (Suc i) cs)"

text \<open>A chunk as \<open>JSON.stringify\<close> writes it and \<open>JSON.parse\<close> reads it back.\<close>

definition chunkJson :: "chunk \<Rightarrow> jsval" where
  "chunkJson c =
     JObj [(str ''text'', JStr (text' c)), (str ''title'', JStr (title c)),
           (str ''date'', JStr (date c)), (str ''embedding'', JArr (map JNum (embedding c)))]"

text \<open>
  The second half of \<open>initializeChunks\<close>. The result is the error thrown, if any, and
  the system as the call leaves it.
\<close>

definition regenerate :: "env \<Rightarrow> services \<Rightarrow> system \<Rightarrow> error option \<times> system" where
  "regenerate ev svc s =
     (case corpus s of
        None \<Rightarrow> (Some IOError, s)
      | Some content \<Rightarrow>
          (case embedLoop ev svc 0 (splitIntoChunks content) [] of
             Inl e \<Rightarrow> (Some e, s)
           | Inr embeddedChunks \<Rightarrow>
               (let s' = s\<lparr>chunks := JArr (map chunkJson embeddedChunks)\<rparr>
                in if cacheWritable s'
                   then (None, s'\<lparr>cache := Contents (chunks s'), isInitialized := True\<rparr>)
                   else (Some IOError, s'))))"

definition initializeChunks ::
  "(jsval \<Rightarrow> error + bool) \<Rightarrow> env \<Rightarrow> services \<Rightarrow> system \<Rightarrow> error option \<times> system" where
  "initializeChunks coerce ev svc s =
     (if isInitialized s then (None, s)
      else case loadCache coerce (cache s) of
             Inl e \<Rightarrow> (Some e, s)
           | Inr (Some cached) \<Rightarrow> (None, s\<lparr>chunks := cached, isInitialized := True\<rparr>)
           | Inr None \<Rightarrow> regenerate ev svc s)"

section \<open>The request handler\<close>

text \<open>\<open>[...new Set(xs)]\<close>: a set keeps its elements in the order of insertion.\<close>

definition setAdd :: "'a list \<Rightarrow> 'a \<Rightarrow> 'a list" where
  "setAdd s x = (if x \<in> set s then s else s @ [x])"

definition newSet :: "'a list \<Rightarrow> 'a list" where
  "newSet xs = foldl setAdd [] xs"

text \<open>\<open>xs.join(sep)\<close>.\<close>

fun jsJoin :: "jsstring \<Rightarrow> jsstring list \<Rightarrow> jsstring" where
  "jsJoin sep [] = []"
| "jsJoin sep [x] = x"
| "jsJoin sep (x # y # ys) = x @ sep @ jsJoin sep (y # ys)"

definition contextOf :: "chunk list \<Rightarrow> jsstring" where
  "contextOf relevant =
     jsJoin ([0xA, 0xA] @ str ''---'' @ [0xA, 0xA])
       (map (\<lambda>c. str ''['' @ title c @ str '']'' @ [0xA] @ text' c) relevant)"

text \<open>
  The three responses: the answer with its sources, \<open>Query required\<close> with status 400,
  and the message of an error with status 500.
\<close>

datatype response =
  Answered "jsval option" "jsstring list" | QueryRequired | Failed error

text \<open>
  \<open>POST\<close>. \<open>body\<close> is what \<open>request.json()\<close> settles to, and the two awaited calls are
  parameters: \<open>findRelevant q\<close> is what \<open>findRelevantChunks(query, 4)\<close> settles to
  and \<open>generate q context\<close> what \<open>generateAnswer(query, context)\<close> settles to.
\<close>

definition POST ::
  "error + jsval \<Rightarrow> (jsval \<Rightarrow> error + chunk list)
     \<Rightarrow> (jsval \<Rightarrow> jsstring \<Rightarrow> error + jsval option) \<Rightarrow> response" where
  "POST body findRelevant generate =
     (case andThen body (\<lambda>b. getProp (Some b) Query) of
        Inl e \<Rightarrow> Failed e
      | Inr None \<Rightarrow> QueryRequired
      | Inr (Some query) \<Rightarrow>
          if \<not> truthy (Some query) then QueryRequired
          else (case findRelevant query of
                  Inl e \<Rightarrow> Failed e
                | Inr relevant \<Rightarrow>
                    (case generate query (contextOf relevant) of
                       Inl e \<Rightarrow> Failed e
                     | Inr a \<Rightarrow> Answered a (newSet (map title relevant)))))"

section \<open>Ranking on a heap\<close>

text \<open>
  Arrays and objects are references, and \<open>sort\<close> reorders its array in place, so what
  the ranking leaves untouched is a question about the heap. A heap is the list of the
  objects allocated so far; an address is an index into it and allocation appends. An
  object is a chunk, a pair \<open>{chunk, score}\<close> that holds the address of its chunk, or
  an array of addresses.
\<close>

datatype obj = ChunkObj chunk | ScoredObj nat jsnum | ArrayObj "nat list"

type_synonym heap = "obj list"

definition alloc :: "heap \<Rightarrow> obj \<Rightarrow> nat \<times> heap" where
  "alloc h ob = (length h, h @ [ob])"

definition lookup :: "heap \<Rightarrow> nat \<Rightarrow> obj option" where
  "lookup h r = (if r < length h then Some (h ! r) else None)"

definition chunkAt :: "heap \<Rightarrow> nat \<Rightarrow> chunk option" where
  "chunkAt h r = (case lookup h r of Some (ChunkObj c) \<Rightarrow> Some c | _ \<Rightarrow> None)"

definition scoredAt :: "heap \<Rightarrow> nat \<Rightarrow> (nat \<times> jsnum) option" where
  "scoredAt h r = (case lookup h r of Some (ScoredObj c s) \<Rightarrow> Some (c, s) | _ \<Rightarrow> None)"

definition arrayAt :: "heap \<Rightarrow> nat \<Rightarrow> nat list option" where
  "arrayAt h r = (case lookup h r of Some (ArrayObj rs) \<Rightarrow> Some rs | _ \<Rightarrow> None)"

text \<open>
  The callback of the first \<open>map\<close>, over the addresses of the chunks: a fresh pair
  for each. The result is \<open>None\<close> where an address does not hold what the code reads
  there, which the types of the program exclude.
\<close>

fun scoreEach :: "similarity \<Rightarrow> real list \<Rightarrow> nat list \<Rightarrow> heap \<Rightarrow> (nat list \<times> heap) option"
  where
  "scoreEach sim q [] h = Some ([], h)"
| "scoreEach sim q (r # rs) h =
     (case chunkAt h r of
        None \<Rightarrow> None
      | Some c \<Rightarrow>
          (let (a, h1) = alloc h (ScoredObj r (scoreOf sim q c))
           in case scoreEach sim q rs h1 of
                None \<Rightarrow> None
              | Some (as, h2) \<Rightarrow> Some (a # as, h2)))"

definition scoreAt :: "heap \<Rightarrow> nat \<Rightarrow> jsnum" where
  "scoreAt h r = (case scoredAt h r of Some (c, s) \<Rightarrow> s | None \<Rightarrow> NaN)"

text \<open>\<open>sort\<close> writes the sorted addresses back into the array it was called on.\<close>

definition sortInPlace :: "heap \<Rightarrow> nat \<Rightarrow> heap option" where
  "sortInPlace h a =
     (case arrayAt h a of
        None \<Rightarrow> None
      | Some rs \<Rightarrow>
          if list_all (\<lambda>r. scoredAt h r \<noteq> None) rs
          then Some (h[a := ArrayObj (jsSort (\<lambda>x y. jsMinus (scoreAt h y) (scoreAt h x)) rs)])
          else None)"

text \<open>\<open>slice\<close> and the second \<open>map\<close> each return a fresh array.\<close>

definition sliceArray :: "heap \<Rightarrow> nat \<Rightarrow> int \<Rightarrow> (nat \<times> heap) option" where
  "sliceArray h a k =
     (case arrayAt h a of
        None \<Rightarrow> None
      | Some rs \<Rightarrow> Some (alloc h (ArrayObj (jsSlice0 k rs))))"

definition chunksOf :: "heap \<Rightarrow> nat \<Rightarrow> (nat \<times> heap) option" where
  "chunksOf h a =
     (case arrayAt h a of
        None \<Rightarrow> None
      | Some rs \<Rightarrow>
          (case those (map (\<lambda>r. map_option fst (scoredAt h r)) rs) of
             None \<Rightarrow> None
           | Some cs \<Rightarrow> Some (alloc h (ArrayObj cs))))"

text \<open>
  The return expression of \<open>findRelevantChunks\<close> on the heap: \<open>a\<close> is the address of
  the array \<open>chunks\<close>, and the result is the address of the array returned, with the
  heap as the call leaves it.
\<close>

definition rankOnHeap ::
  "similarity \<Rightarrow> real list \<Rightarrow> nat \<Rightarrow> int \<Rightarrow> heap \<Rightarrow> (nat \<times> heap) option" where
  "rankOnHeap sim q a topK h =
     (case arrayAt h a of
        None \<Rightarrow> None
      | Some rs \<Rightarrow>
          (case scoreEach sim q rs h of
             None \<Rightarrow> None
           | Some (scored, h1) \<Rightarrow>
               (let (a1, h2) = alloc h1 (ArrayObj scored)
                in case sortInPlace h2 a1 of
                     None \<Rightarrow> None
                   | Some h3 \<Rightarrow>
                       (case sliceArray h3 a1 topK of
                          None \<Rightarrow> None
                        | Some (a2, h4) \<Rightarrow> chunksOf h4 a2))))"

section \<open>Notions used in the statements\<close>

text \<open>
  A list without its repetitions, each element where it first stood.
\<close>

function keepFirst :: "'a list \<Rightarrow> 'a list" where
  "keepFirst [] = []"
| "keepFirst (x # xs) = x # keepFirst (removeAll x xs)"
  by pat_completeness auto
termination
  by (relation "measure length") (auto simp: le_imp_less_Suc)

text \<open>Every object of \<open>h\<close> is in \<open>h'\<close> at its address, as it was.\<close>

definition keeps :: "heap \<Rightarrow> heap \<Rightarrow> bool" where
  "keeps h h' \<longleftrightarrow> length h \<le> length h' \<and> take (length h) h' = h"

text \<open>
  A chunk list in order of non-increasing score: each chunk has a score \<open>>=\<close> that of
  every chunk after it.
\<close>

definition nonIncreasing :: "similarity \<Rightarrow> real list \<Rightarrow> chunk list \<Rightarrow> bool" where
  "nonIncreasing sim q cs \<longleftrightarrow>
     sorted_wrt (\<lambda>c d. jsGe (sim q (embedding c)) (sim q (embedding d))) cs"

text \<open>
  The key that the comparator sorts by, when no score is \<open>NaN\<close>: the scores in
  descending order, as pairs in lexicographic order, the positive infinity first and
  the negative infinity last.
\<close>

fun descKey :: "jsnum \<Rightarrow> int \<times> real" where
  "descKey (Num r) = (0, - r)"
| "descKey PosInf = (- 1, 0)"
| "descKey NegInf = (1, 0)"
| "descKey NaN = (0, 0)"

definition sortKey :: "chunk \<times> jsnum \<Rightarrow> int \<times> real" where
  "sortKey p = descKey (snd p)"

definition numeric :: "chunk \<times> jsnum \<Rightarrow> bool" where
  "numeric p \<longleftrightarrow> snd p \<noteq> NaN"

text \<open>
  The primary backend is usable: it is configured, its call settles, and the body of
  the response has a content that counts as true.
\<close>

definition primaryUsable :: "env \<Rightarrow> services \<Rightarrow> jsstring \<Rightarrow> jsstring \<Rightarrow> bool" where
  "primaryUsable ev svc prompt query \<longleftrightarrow>
     (case OPENROUTER_API_KEY ev of
        None \<Rightarrow> False
      | Some key \<Rightarrow>
          key \<noteq> [] \<and>
          (case chatCompletion svc key prompt query of
             Inl e \<Rightarrow> False
           | Inr data \<Rightarrow> (case messageContent data of Inl e \<Rightarrow> False | Inr c \<Rightarrow> truthy c)))"

text \<open>The prompt that the fallback backend receives.\<close>

definition fallbackPrompt :: "jsstring \<Rightarrow> jsstring \<Rightarrow> jsstring \<Rightarrow> jsstring" where
  "fallbackPrompt rules query context =
     systemPrompt rules context @ [0xA, 0xA] @ str ''Question: '' @ query"

text \<open>A value that is an object with the property \<open>k\<close>.\<close>

fun hasField :: "jsval \<Rightarrow> jsstring \<Rightarrow> bool" where
  "hasField (JObj kvs) k = (map_of kvs k \<noteq> None)"
| "hasField v k = False"

text \<open>What the population adds for the chunk \<open>c\<close> of index \<open>i\<close>: the chunk or nothing.\<close>

definition embeddedAt :: "env \<Rightarrow> services \<Rightarrow> nat \<times> rawChunk \<Rightarrow> chunk list" where
  "embeddedAt ev svc p =
     (case getEmbedding ev svc (fst p) (text' (snd p)) of
        Inr e \<Rightarrow> [withEmbedding (snd p) e]
      | Inl err \<Rightarrow> [])"

text \<open>
  What a title can be besides the date of its newsletter: the trimmed text of one of the
  paragraphs that the filter kept, when that text is shorter than 80 code units.
\<close>

definition headingOf :: "jsstring \<Rightarrow> jsstring \<Rightarrow> bool" where
  "headingOf nl t \<longleftrightarrow>
     (\<exists>p \<in> set (paragraphs nl). t = trim p \<and> 50 < length t \<and> length t < 80)"

definition titled :: "jsstring \<Rightarrow> rawChunk \<Rightarrow> bool" where
  "titled content c \<longleftrightarrow>
     title c \<noteq> [] \<and>
     (\<exists>nl \<in> set (rawNewsletters content).
        date c = newsletterDate nl \<and> (title c = newsletterDate nl \<or> headingOf nl (title c)))"

text \<open>
  The heading rule in the words of the specification: shorter than 80, longer than 5,
  and not ending in a full stop, a question mark or an exclamation mark.
\<close>

definition sentenceTerminal :: "codeunit \<Rightarrow> bool" where
  "sentenceTerminal c \<longleftrightarrow> c = 0x2E \<or> c = 0x3F \<or> c = 0x21"

definition headingAsSpecified :: "jsstring \<Rightarrow> bool" where
  "headingAsSpecified para \<longleftrightarrow>
     length para < 80 \<and> \<not> (para \<noteq> [] \<and> sentenceTerminal (last para)) \<and> 5 < length para"

text \<open>The first letters of the month names, after \<open>upper\<close>: J, F, M, A, S, O, N, D.\<close>

definition monthInitial :: "codeunit \<Rightarrow> bool" where
  "monthInitial c \<longleftrightarrow> upper c \<in> {0x4A, 0x46, 0x4D, 0x41, 0x53, 0x4F, 0x4E, 0x44}"

text \<open>Every match of the pattern has at least \<open>l\<close> code units, all of them in the string.\<close>

definition spans :: "nat \<Rightarrow> matcher \<Rightarrow> bool" where
  "spans l m \<longleftrightarrow> (\<forall>s n. n \<in> set (m s) \<longrightarrow> l \<le> n \<and> n \<le> length s)"

section \<open>Example inputs\<close>

text \<open>
  A corpus of two newsletters. The first has a heading that ends in a question mark
  and a body of 150 letters; the second has a body of 250 letters and no heading.
\<close>

definition headingA :: string where
  "headingA = ''Why do so many founders wait too long before hiring help?''"

definition corpusA :: jsstring where
  "corpusA = str ''March 3, 2021'' @ [0xA, 0xA] @ str headingA @ [0xA, 0xA] @ replicate 150 0x78
     @ [0xA, 0xA] @ str ''June 12, 2022'' @ [0xA, 0xA] @ replicate 250 0x79"

definition seg1 :: jsstring where
  "seg1 = str ''March 3, 2021'' @ [0xA, 0xA] @ str headingA @ [0xA, 0xA] @ replicate 150 0x78
     @ [0xA, 0xA]"

definition seg2 :: jsstring where
  "seg2 = str ''June 12, 2022'' @ [0xA, 0xA] @ replicate 250 0x79"

definition chunkA1 :: rawChunk where
  "chunkA1 = \<lparr>text' = replicate 150 0x78, title = str headingA, date = str ''March 3, 2021''\<rparr>"

definition chunkA2 :: rawChunk where
  "chunkA2 = \<lparr>text' = replicate 250 0x79, title = str ''June 12, 2022'',
     date = str ''June 12, 2022''\<rparr>"

text \<open>
  The first end-to-end scenario of the specification: the date line, the heading
  \<open>On Divorce\<close>, and one paragraph of 900 letters, each after a blank line.
\<close>

definition corpus1 :: jsstring where
  "corpus1 = str ''March 3, 2021'' @ [0xA, 0xA] @ str ''On Divorce'' @ [0xA, 0xA]
     @ replicate 900 0x78"

text \<open>Chunks for the ranking, told apart by their titles.\<close>

definition exampleChunk :: "string \<Rightarrow> real list \<Rightarrow> chunk" where
  "exampleChunk t e = \<lparr>text' = str ''body'', title = str t, date = str ''Unknown'', embedding = e\<rparr>"

text \<open>A heap with two chunks and the array of both.\<close>

definition exampleHeap :: heap where
  "exampleHeap =
     [ChunkObj (exampleChunk ''A'' [- 1]), ChunkObj (exampleChunk ''B'' [1]), ArrayObj [0, 1]]"

text \<open>
  An environment without credentials and one with both; services that reject every
  call; services whose chat completion has no \<open>choices\<close>, whose generation answers, and
  whose embedding fails for the chunk of index 0 only.
\<close>

definition noCredentials :: env where
  "noCredentials = \<lparr>OPENROUTER_API_KEY = None, GEMINI_API_KEY = None\<rparr>"

definition bothCredentials :: env where
  "bothCredentials = \<lparr>OPENROUTER_API_KEY = Some (str ''or-key''), GEMINI_API_KEY = Some (str ''g-key'')\<rparr>"

definition rejecting :: services where
  "rejecting = \<lparr>chatCompletion = (\<lambda>k p q. Inl BackendError),
     generateContent = (\<lambda>p. Inl BackendError), embedContent = (\<lambda>i t. Inl BackendError)\<rparr>"

definition exampleServices :: services where
  "exampleServices = \<lparr>chatCompletion = (\<lambda>k p q. Inr (JObj [(str ''error'', JStr (str ''busy''))])),
     generateContent = (\<lambda>p. Inr (str ''From the newsletters.'')),
     embedContent = (\<lambda>i t. if i = 0 then Inl BackendError else Inr [1, 0])\<rparr>"

definition noCoercion :: "jsval \<Rightarrow> error + bool" where
  "noCoercion v = Inr False"

text \<open>
  A process that has not answered a query yet: once with a cache whose first entry has
  no embedding, once with no cache at all. The corpus is \<open>corpusA\<close>.
\<close>

definition staleCache :: system where
  "staleCache = \<lparr>chunks = JArr [], isInitialized = False,
     cache = Contents (JArr [JObj [(str ''text'', JStr (str ''old''))]]),
     corpus = Some corpusA, cacheWritable = True\<rparr>"

definition coldStart :: system where
  "coldStart = \<lparr>chunks = JArr [], isInitialized = False, cache = Missing,
     corpus = Some corpusA, cacheWritable = True\<rparr>"

section \<open>Properties of the chunker\<close>

subsection \<open>What a match of the date pattern looks like\<close>

lemma rSeq_elem:
  "n \<in> set (rSeq m1 m2 s) \<Longrightarrow> \<exists>a k. a \<in> set (m1 s) \<and> k \<in> set (m2 (drop a s)) \<and> n = a + k"
  by (auto simp: rSeq_def)

lemma rClass_elem: "n \<in> set (rClass P s) \<Longrightarrow> n = 1 \<and> s \<noteq> []"
  by (auto simp: rClass_def split: list.splits if_splits)

lemma rWord_elem: "n \<in> set (rWord w s) \<Longrightarrow> n = length w \<and> length w \<le> length s"
proof (induction w arbitrary: n s)
  case Nil
  then show ?case by (simp add: rWord_def rEmpty_def)
next
  case (Cons p ps)
  have unfold: "rWord (p # ps) s = rSeq (rLit p) (rWord ps) s"
    by (simp add: rWord_def)
  from Cons.prems obtain a k where a: "a \<in> set (rLit p s)"
    and k: "k \<in> set (rWord ps (drop a s))" and n: "n = a + k"
    unfolding unfold by (blast dest: rSeq_elem)
  from a have "a = 1" "s \<noteq> []"
    by (auto simp: rLit_def dest: rClass_elem)
  moreover from Cons.IH [OF k] have "k = length ps" "length ps \<le> length (drop a s)"
    by simp_all
  ultimately show ?case using n by (cases s) auto
qed

lemma rAlts_elem: "n \<in> set (rAlts ms s) \<Longrightarrow> \<exists>m \<in> set ms. n \<in> set (m s)"
  by (induction ms) (auto simp: rAlts_def rAlt_def)

lemma months_length: "w \<in> set months \<Longrightarrow> 3 \<le> length w"
  by (auto simp: months_def str_def)

lemma datePattern_elem: "n \<in> set (datePattern s) \<Longrightarrow> 3 \<le> n \<and> s \<noteq> []"
proof -
  assume "n \<in> set (datePattern s)"
  then obtain a k where a: "a \<in> set (rAlts (map rWord months) s)" and n: "n = a + k"
    unfolding datePattern_def by (blast dest: rSeq_elem)
  from a obtain w where "w \<in> set months" "a \<in> set (rWord w s)"
    by (auto dest!: rAlts_elem)
  then have "3 \<le> a" "a \<le> length s"
    by (auto dest: rWord_elem months_length)
  then show ?thesis using n by auto
qed

lemma datePattern_Nil: "datePattern [] = []"
  using datePattern_elem [of _ "[]"] by (cases "datePattern []") auto

lemma firstMatch_date_nonempty: "firstMatch datePattern s = Some d \<Longrightarrow> d \<noteq> []"
proof (induction s)
  case Nil
  then show ?case
    by (simp add: matchLen_def datePattern_Nil)
next
  case (Cons c cs)
  show ?case
  proof (cases "matchLen datePattern (c # cs)")
    case None
    with Cons show ?thesis by simp
  next
    case (Some n)
    then have "n \<in> set (datePattern (c # cs))"
      by (auto simp: matchLen_def split: list.splits)
    then have "3 \<le> n" by (blast dest: datePattern_elem)
    with Some Cons.prems show ?thesis by auto
  qed
qed

lemma newsletterDate_nonempty: "newsletterDate nl \<noteq> []"
  by (auto simp: newsletterDate_def str_def split: option.splits dest: firstMatch_date_nonempty)

lemma spans_rClass: "spans 1 (rClass P)"
  by (auto simp: spans_def rClass_def split: list.splits if_splits)

lemma spans_rLit: "spans 1 (rLit p)"
  unfolding rLit_def by (rule spans_rClass)

lemma rStar_le: "n \<in> set (rStar P s) \<Longrightarrow> n \<le> length s"
  by (induction s arbitrary: n) (auto split: if_splits)

lemma spans_rStar: "spans 0 (rStar P)"
  by (simp add: spans_def rStar_le)

lemma spans_rSeq: "spans l1 m1 \<Longrightarrow> spans l2 m2 \<Longrightarrow> spans (l1 + l2) (rSeq m1 m2)"
  unfolding spans_def
proof (intro allI impI)
  fix s n
  assume m1: "\<forall>s n. n \<in> set (m1 s) \<longrightarrow> l1 \<le> n \<and> n \<le> length s"
    and m2: "\<forall>s n. n \<in> set (m2 s) \<longrightarrow> l2 \<le> n \<and> n \<le> length s"
    and n: "n \<in> set (rSeq m1 m2 s)"
  from n obtain a k where a: "a \<in> set (m1 s)" and k: "k \<in> set (m2 (drop a s))" and e: "n = a + k"
    by (blast dest: rSeq_elem)
  from m1 a have "l1 \<le> a" "a \<le> length s" by blast+
  moreover from m2 k have "l2 \<le> k" "k \<le> length (drop a s)" by blast+
  ultimately show "l1 + l2 \<le> n \<and> n \<le> length s" using e by simp
qed

lemma spans_rOpt: "spans l m \<Longrightarrow> spans 0 (rOpt m)"
  by (auto simp: spans_def rOpt_def rAlt_def rEmpty_def)

lemma spans_months: "spans 3 (rAlts (map rWord months))"
  unfolding spans_def
proof (intro allI impI)
  fix s n assume "n \<in> set (rAlts (map rWord months) s)"
  then obtain w where "w \<in> set months" "n \<in> set (rWord w s)"
    by (auto dest!: rAlts_elem)
  then show "3 \<le> n \<and> n \<le> length s"
    by (auto dest: rWord_elem months_length)
qed

lemma spans_datePattern: "spans 11 datePattern"
proof -
  have plus: "spans (1 + 0) (rPlus isSpace)"
    unfolding rPlus_def by (intro spans_rSeq spans_rClass spans_rStar)
  have day: "spans (1 + 0) (rSeq (rClass isDigit) (rOpt (rClass isDigit)))"
    by (intro spans_rSeq spans_rClass spans_rOpt [of 1])
  have year: "spans (1 + (1 + (1 + 1)))
      (rSeq (rClass isDigit) (rSeq (rClass isDigit) (rSeq (rClass isDigit) (rClass isDigit))))"
    by (intro spans_rSeq spans_rClass)
  have "spans (3 + ((1 + 0) + ((1 + 0) + (1 + ((1 + 0) + (1 + (1 + (1 + 1)))))))) datePattern"
    unfolding datePattern_def
    by (intro spans_rSeq spans_months plus day spans_rLit year)
  then show ?thesis by simp
qed

lemma firstMatch_date_length: "firstMatch datePattern s = Some d \<Longrightarrow> 11 \<le> length d"
proof (induction s)
  case Nil
  then show ?case by (simp add: matchLen_def datePattern_Nil)
next
  case (Cons c cs)
  show ?case
  proof (cases "matchLen datePattern (c # cs)")
    case None
    with Cons show ?thesis by simp
  next
    case (Some n)
    then have "n \<in> set (datePattern (c # cs))"
      by (auto simp: matchLen_def split: list.splits)
    then have "11 \<le> n" "n \<le> length (c # cs)"
      using spans_datePattern unfolding spans_def by blast+
    with Some Cons.prems show ?thesis by auto
  qed
qed

subsection \<open>The walk keeps its titles\<close>

lemma walkStep_inv:
  assumes res: "\<forall>c \<in> set (result w). P c"
    and cur: "R (currentTitle w)"
    and hd: "isHeader (trim p) \<Longrightarrow> R (trim p)"
    and mk: "\<And>x t. R t \<Longrightarrow> P \<lparr>text' = x, title = t, date = d\<rparr>"
  shows "(\<forall>c \<in> set (result (walkStep d w p)). P c) \<and> R (currentTitle (walkStep d w p))"
  using assms by (auto simp: walkStep_def flush_def Let_def)

lemma walk_inv:
  assumes "\<forall>c \<in> set (result w). P c"
    and "R (currentTitle w)"
    and "\<forall>p \<in> set ps. isHeader (trim p) \<longrightarrow> R (trim p)"
    and mk: "\<And>x t. R t \<Longrightarrow> P \<lparr>text' = x, title = t, date = d\<rparr>"
  shows "(\<forall>c \<in> set (result (foldl (walkStep d) w ps)). P c)
     \<and> R (currentTitle (foldl (walkStep d) w ps))"
  using assms(1-3)
proof (induction ps arbitrary: w)
  case Nil
  then show ?case by simp
next
  case (Cons p ps)
  have "(\<forall>c \<in> set (result (walkStep d w p)). P c) \<and> R (currentTitle (walkStep d w p))"
    using Cons.prems mk by (intro walkStep_inv) auto
  then show ?case using Cons.IH [of "walkStep d w p"] Cons.prems(3) by simp
qed

lemma processNewsletter_inv:
  assumes res: "\<forall>c \<in> set res. P c"
    and d: "R (newsletterDate nl)"
    and hd: "\<forall>p \<in> set (paragraphs nl). isHeader (trim p) \<longrightarrow> R (trim p)"
    and mk: "\<And>x t. R t \<Longrightarrow> P \<lparr>text' = x, title = t, date = newsletterDate nl\<rparr>"
  shows "\<forall>c \<in> set (processNewsletter res nl). P c"
proof -
  let ?w0 = "\<lparr>result = res, buffer = [], currentTitle = newsletterDate nl\<rparr>"
  let ?w = "foldl (walkStep (newsletterDate nl)) ?w0 (paragraphs nl)"
  have inv: "(\<forall>c \<in> set (result ?w). P c) \<and> R (currentTitle ?w)"
    using res d hd mk by (intro walk_inv) auto
  then show ?thesis
    using mk by (auto simp: processNewsletter_def Let_def flush_def)
qed

lemma newsletters_inv:
  assumes "\<forall>c \<in> set res. P c"
    and step: "\<And>nl res. nl \<in> set nls \<Longrightarrow> \<forall>c \<in> set res. P c
           \<Longrightarrow> \<forall>c \<in> set (processNewsletter res nl). P c"
  shows "\<forall>c \<in> set (foldl processNewsletter res nls). P c"
  using assms
proof (induction nls arbitrary: res)
  case Nil
  then show ?case by simp
next
  case (Cons nl nls)
  have "\<forall>c \<in> set (processNewsletter res nl). P c"
    by (rule Cons.prems(2)) (simp_all add: Cons.prems(1))
  then have "\<forall>c \<in> set (foldl processNewsletter (processNewsletter res nl) nls). P c"
    by (rule Cons.IH) (rule Cons.prems(2), simp_all)
  then show ?case by simp
qed

lemma paragraphs_long: "p \<in> set (paragraphs nl) \<Longrightarrow> 50 < length (trim p)"
  by (simp add: paragraphs_def)

lemma titled_processNewsletter:
  assumes nl: "nl \<in> set (rawNewsletters content)" and res: "\<forall>c \<in> set res. titled content c"
  shows "\<forall>c \<in> set (processNewsletter res nl). titled content c"
proof (rule processNewsletter_inv [where R = "\<lambda>t. t = newsletterDate nl \<or> headingOf nl t"])
  show "\<forall>c \<in> set res. titled content c" by (rule res)
  show "newsletterDate nl = newsletterDate nl \<or> headingOf nl (newsletterDate nl)" by simp
  show "\<forall>p \<in> set (paragraphs nl). isHeader (trim p) \<longrightarrow>
      trim p = newsletterDate nl \<or> headingOf nl (trim p)"
  proof (intro ballI impI disjI2)
    fix p assume p: "p \<in> set (paragraphs nl)" and h: "isHeader (trim p)"
    from h have "length (trim p) < 80" by (simp add: isHeader_def)
    moreover from p have "50 < length (trim p)" by (rule paragraphs_long)
    ultimately show "headingOf nl (trim p)"
      unfolding headingOf_def using p by blast
  qed
  fix x t
  assume t: "t = newsletterDate nl \<or> headingOf nl t"
  have ne: "t \<noteq> []"
  proof (cases "t = newsletterDate nl")
    case True
    then show ?thesis by (simp add: newsletterDate_nonempty)
  next
    case False
    with t have "headingOf nl t" by simp
    then have "50 < length t" unfolding headingOf_def by blast
    then show ?thesis by auto
  qed
  show "titled content \<lparr>text' = x, title = t, date = newsletterDate nl\<rparr>"
    unfolding titled_def using ne t nl by (intro conjI bexI [of _ nl]) simp_all
qed

lemma titled_all: "c \<in> set (splitIntoChunks content) \<Longrightarrow> titled content c"
proof -
  have "\<forall>c \<in> set (foldl processNewsletter [] (rawNewsletters content)). titled content c"
    by (rule newsletters_inv [where P = "titled content"]) (simp_all add: titled_processNewsletter)
  then show "c \<in> set (splitIntoChunks content) \<Longrightarrow> titled content c"
    by (simp add: splitIntoChunks_def)
qed

subsection \<open>Evaluation on strings with long runs of one letter\<close>

lemma rClass_simps:
  "rClass P [] = []"
  "rClass P (c # cs) = (if P c then [1] else [])"
  by (simp_all add: rClass_def)

lemma rWord_simps:
  "rWord [] s = [0]"
  "rWord (p # ps) [] = []"
  "rWord (p # ps) (c # cs) = (if upper c = upper p then map Suc (rWord ps cs) else [])"
  by (simp_all add: rWord_def rEmpty_def rSeq_def rLit_def rClass_def)

lemma rAlts_simps:
  "rAlts [] s = []"
  "rAlts (m # ms) s = m s @ rAlts ms s"
  by (simp_all add: rAlts_def rAlt_def)

lemma months_eval:
  "months = [str ''January'', str ''February'', str ''March'', str ''April'', str ''May'',
     str ''June'', str ''July'', str ''August'', str ''September'', str ''October'',
     str ''November'', str ''December'']"
  by (simp add: months_def)

lemmas upper_numeral = upper_def [of "numeral k" for k]

lemma months_first: "\<not> monthInitial c \<Longrightarrow> rAlts (map rWord months) (c # cs) = []"
  by (simp add: months_eval str_def rAlts_simps rWord_simps monthInitial_def upper_numeral)

lemma datePattern_Cons:
  "datePattern (c # cs) =
     (if monthInitial c then
        rSeq (rAlts (map rWord months))
       (rSeq (rPlus isSpace)
       (rSeq (rSeq (rClass isDigit) (rOpt (rClass isDigit)))
       (rSeq (rLit 0x2C)
       (rSeq (rPlus isSpace)
       (rSeq (rClass isDigit) (rSeq (rClass isDigit) (rSeq (rClass isDigit) (rClass isDigit))))))))
       (c # cs)
      else [])"
  by (simp add: datePattern_def months_first rSeq_def [of "rAlts (map rWord months)"])

lemma splitLoop_block:
  "\<forall>cs. m (x # cs) = [] \<Longrightarrow>
     splitLoop m acc (replicate n x @ t) = splitLoop m (replicate n x @ acc) t"
proof (induction n arbitrary: acc)
  case 0
  then show ?case by simp
next
  case (Suc n)
  have none: "matchLen m (x # replicate n x @ t) = None"
    using Suc.prems by (simp add: matchLen_def)
  have e: "replicate n x @ x # acc = replicate (Suc n) x @ acc"
    by (simp add: replicate_app_Cons_same)
  have "splitLoop m acc (replicate (Suc n) x @ t) = splitLoop m acc (x # replicate n x @ t)"
    by simp
  also have "\<dots> = splitLoop m (x # acc) (replicate n x @ t)"
    by (simp only: splitLoop.simps none option.case)
  also have "\<dots> = splitLoop m (replicate n x @ x # acc) t"
    using Suc.prems by (rule Suc.IH)
  also have "\<dots> = splitLoop m (replicate (Suc n) x @ acc) t"
    by (simp only: e)
  finally show ?case .
qed

lemma splitLoop_block_end:
  "\<forall>cs. m (x # cs) = [] \<Longrightarrow> splitLoop m acc (replicate n x) = [rev acc @ replicate n x]"
  using splitLoop_block [of m x acc n "[]"] by simp

lemma dropWhile_block:
  "\<not> P x \<Longrightarrow> n \<noteq> 0 \<Longrightarrow> dropWhile P (replicate n x @ t) = replicate n x @ t"
  "\<not> P x \<Longrightarrow> n \<noteq> 0 \<Longrightarrow> dropWhile P (replicate n x) = replicate n x"
  by (cases n; simp)+

lemma rStar_block:
  "\<not> P x \<Longrightarrow> n \<noteq> 0 \<Longrightarrow> rStar P (replicate n x @ t) = [0]"
  "\<not> P x \<Longrightarrow> n \<noteq> 0 \<Longrightarrow> rStar P (replicate n x) = [0]"
  by (cases n; simp)+

lemma rClass_block:
  "n \<noteq> 0 \<Longrightarrow> rClass P (replicate n x @ t) = (if P x then [1] else [])"
  "n \<noteq> 0 \<Longrightarrow> rClass P (replicate n x) = (if P x then [1] else [])"
  by (cases n; simp add: rClass_def)+

lemmas isSpace_numeral = isSpace_def [of "numeral k" for k]

lemmas regex_eval =
  rStar_block rClass_block rClass_simps rWord_simps rAlts_simps months_eval datePattern_Cons datePattern_Nil
  rSeq_def rAlt_def rOpt_def rEmpty_def rPlus_def rChar_def rLit_def rLookahead_def matchLen_def
  paragraphSep_def monthInitial_def upper_numeral isSpace_numeral isDigit_def str_def

lemma split_corpusA: "jsSplit (rLookahead datePattern) corpusA = [seg1, seg2]"
  by (simp add: corpusA_def seg1_def seg2_def headingA_def jsSplit_def regex_eval
      splitLoop_block splitLoop_block_end)

lemmas trim_eval = trim_def dropWhile_block isSpace_numeral

lemma trim_seg1: "length (trim seg1) = 224"
  by (simp add: seg1_def headingA_def str_def trim_eval)

lemma trim_seg2: "length (trim seg2) = 265"
  by (simp add: seg2_def headingA_def str_def trim_eval)

lemma rawNewsletters_corpusA: "rawNewsletters corpusA = [seg1, seg2]"
  by (simp add: rawNewsletters_def split_corpusA trim_seg1 trim_seg2)

lemma date_seg1: "newsletterDate seg1 = str ''March 3, 2021''"
  by (simp add: newsletterDate_def seg1_def regex_eval)

lemma date_seg2: "newsletterDate seg2 = str ''June 12, 2022''"
  by (simp add: newsletterDate_def seg2_def regex_eval)

lemma split_seg1:
  "jsSplit paragraphSep seg1 = [str ''March 3, 2021'', str headingA, replicate 150 0x78, []]"
  by (simp add: seg1_def headingA_def jsSplit_def regex_eval splitLoop_block splitLoop_block_end)

lemma split_seg2:
  "jsSplit paragraphSep seg2 = [str ''June 12, 2022'', replicate 250 0x79]"
  by (simp add: seg2_def headingA_def jsSplit_def regex_eval splitLoop_block splitLoop_block_end)

lemma trim_headingA: "trim (str headingA) = str headingA"
  by (simp add: headingA_def str_def trim_eval)

lemma trim_block: "\<not> isSpace x \<Longrightarrow> n \<noteq> 0 \<Longrightarrow> trim (replicate n x) = replicate n x"
  by (simp add: trim_def dropWhile_block)

lemma trim_block_nl:
  "\<not> isSpace x \<Longrightarrow> n \<noteq> 0 \<Longrightarrow> trim (replicate n x @ [0xA, 0xA]) = replicate n x"
  by (simp add: trim_def dropWhile_block isSpace_def)

lemma length_str: "length (str s) = length s"
  by (simp add: str_def)

lemma paragraphs_seg1: "paragraphs seg1 = [str headingA, replicate 150 0x78]"
  by (simp add: paragraphs_def split_seg1 headingA_def str_def trim_eval)

lemma paragraphs_seg2: "paragraphs seg2 = [replicate 250 0x79]"
  by (simp add: paragraphs_def split_seg2 str_def trim_eval)

lemma isHeader_headingA: "isHeader (str headingA)"
  by (simp add: isHeader_def endsWith_def headingA_def str_def)

lemma isHeader_block: "80 \<le> n \<Longrightarrow> \<not> isHeader (replicate n x)"
  by (simp add: isHeader_def)

lemma process_seg1: "processNewsletter res seg1 = res @ [chunkA1]"
  by (simp add: processNewsletter_def date_seg1 paragraphs_seg1 walkStep_def Let_def
      trim_headingA trim_block trim_block_nl isSpace_numeral isHeader_headingA isHeader_block
      flush_def chunkA1_def)

lemma process_seg2: "processNewsletter res seg2 = res @ [chunkA2]"
  by (simp add: processNewsletter_def date_seg2 paragraphs_seg2 walkStep_def Let_def
      trim_block trim_block_nl isSpace_numeral isHeader_block flush_def chunkA2_def)

lemma chunks_corpusA: "splitIntoChunks corpusA = [chunkA1, chunkA2]"
  by (simp add: splitIntoChunks_def rawNewsletters_corpusA process_seg1 process_seg2)

subsection \<open>The heading rule\<close>

lemma endsWith_full_stop: "endsWith s (str ''.'') \<longleftrightarrow> s \<noteq> [] \<and> last s = 0x2E"
proof (cases s rule: rev_cases)
  case Nil
  then show ?thesis by (simp add: endsWith_def str_def)
next
  case (snoc ys y)
  then show ?thesis by (auto simp: endsWith_def str_def)
qed

text \<open>
  C2, as amended. In the walk over the paragraphs of a newsletter, a paragraph is taken
  as a heading exactly when its trimmed text is shorter than 80 code units, does not end
  in a full stop, and is longer than 5 code units. A heading becomes the current title and
  adds nothing to the buffer, which is emptied if it held more than 200 code units; any
  other paragraph leaves the current title as it was. Question marks and exclamation
  marks play no part in the test.
\<close>

theorem heading_rule:
  "(isHeader (trim p) \<longleftrightarrow>
      length (trim p) < 80 \<and> \<not> (trim p \<noteq> [] \<and> last (trim p) = 0x2E) \<and> 5 < length (trim p))
   \<and> (isHeader (trim p) \<longrightarrow>
        currentTitle (walkStep d w p) = trim p
      \<and> buffer (walkStep d w p) = (if 200 < length (buffer w) then [] else buffer w))
   \<and> (\<not> isHeader (trim p) \<longrightarrow> currentTitle (walkStep d w p) = currentTitle w)"
  by (auto simp: isHeader_def endsWith_full_stop walkStep_def flush_def Let_def)

theorem heading_rule_witness:
  "isHeader (trim (str headingA))
   \<and> currentTitle (walkStep (str ''March 3, 2021'')
        \<lparr>result = [], buffer = [], currentTitle = str ''March 3, 2021''\<rparr> (str headingA))
      = str headingA
   \<and> \<not> isHeader (trim (replicate 150 0x78))
   \<and> currentTitle (walkStep (str ''March 3, 2021'')
        \<lparr>result = [], buffer = [], currentTitle = str headingA\<rparr> (replicate 150 0x78))
      = str headingA"
  using heading_rule [of "str headingA" "str ''March 3, 2021''"
      "\<lparr>result = [], buffer = [], currentTitle = str ''March 3, 2021''\<rparr>"]
    heading_rule [of "replicate 150 0x78" "str ''March 3, 2021''"
      "\<lparr>result = [], buffer = [], currentTitle = str headingA\<rparr>"]
  by (simp add: trim_headingA trim_block isSpace_numeral isHeader_headingA isHeader_block)

text \<open>
  The claim as stated fails on a paragraph that ends in a question mark: the code takes
  it as a heading, and it becomes the title of the chunk that follows.
\<close>

theorem heading_rule_counterexample:
  "isHeader (trim (str headingA)) \<and> \<not> headingAsSpecified (trim (str headingA))
   \<and> 50 < length (trim (str headingA))
   \<and> map title (splitIntoChunks corpusA) = [str headingA, str ''June 12, 2022'']"
  by (simp add: trim_headingA isHeader_headingA chunks_corpusA chunkA1_def chunkA2_def
      headingAsSpecified_def sentenceTerminal_def)
    (simp add: headingA_def str_def)

subsection \<open>Titles\<close>

text \<open>
  C10. Every chunk has a title that is not empty. Its date is the date of one of the
  newsletters of the corpus (the first match of the date pattern there, or \<open>Unknown\<close>
  where there is none), and its title is either that date or the trimmed text of a
  paragraph of that newsletter with more than 50 and fewer than 80 code units: the
  filter on the paragraphs runs before the heading test, so nothing shorter gets there.
\<close>

theorem chunk_titles:
  "\<forall>c \<in> set (splitIntoChunks content).
     title c \<noteq> [] \<and>
     (\<exists>nl \<in> set (rawNewsletters content).
        date c = newsletterDate nl
      \<and> (firstMatch datePattern nl = Some (date c)
          \<or> firstMatch datePattern nl = None \<and> date c = str ''Unknown'')
      \<and> (title c = date c
          \<or> (\<exists>p \<in> set (paragraphs nl).
                title c = trim p \<and> 50 < length (trim p) \<and> length (trim p) < 80)))"
proof
  fix c
  assume c: "c \<in> set (splitIntoChunks content)"
  have "\<forall>c \<in> set (foldl processNewsletter [] (rawNewsletters content)). titled content c"
    by (rule newsletters_inv [where P = "titled content"]) (simp_all add: titled_processNewsletter)
  with c have t: "titled content c"
    by (simp add: splitIntoChunks_def)
  then obtain nl where nl: "nl \<in> set (rawNewsletters content)"
    and d: "date c = newsletterDate nl"
    and h: "title c = newsletterDate nl \<or> headingOf nl (title c)"
    unfolding titled_def by blast
  have "firstMatch datePattern nl = Some (date c)
      \<or> firstMatch datePattern nl = None \<and> date c = str ''Unknown''"
    using d by (simp add: newsletterDate_def split: option.splits)
  moreover have "title c = date c
      \<or> (\<exists>p \<in> set (paragraphs nl).
            title c = trim p \<and> 50 < length (trim p) \<and> length (trim p) < 80)"
    using h d unfolding headingOf_def by auto
  moreover have "title c \<noteq> []"
    using t by (simp add: titled_def)
  ultimately show "title c \<noteq> [] \<and>
     (\<exists>nl \<in> set (rawNewsletters content).
        date c = newsletterDate nl
      \<and> (firstMatch datePattern nl = Some (date c)
          \<or> firstMatch datePattern nl = None \<and> date c = str ''Unknown'')
      \<and> (title c = date c
          \<or> (\<exists>p \<in> set (paragraphs nl).
                title c = trim p \<and> 50 < length (trim p) \<and> length (trim p) < 80)))"
    using nl d by blast
qed

theorem chunk_titles_witness:
  "chunkA1 \<in> set (splitIntoChunks corpusA) \<and> title chunkA1 \<noteq> []
   \<and> (\<exists>nl \<in> set (rawNewsletters corpusA).
        date chunkA1 = newsletterDate nl
      \<and> (firstMatch datePattern nl = Some (date chunkA1)
          \<or> firstMatch datePattern nl = None \<and> date chunkA1 = str ''Unknown'')
      \<and> (title chunkA1 = date chunkA1
          \<or> (\<exists>p \<in> set (paragraphs nl).
                title chunkA1 = trim p \<and> 50 < length (trim p) \<and> length (trim p) < 80)))"
  using chunk_titles [of corpusA] by (simp add: chunks_corpusA)

subsection \<open>The first end-to-end scenario\<close>

lemma split_corpus1: "jsSplit (rLookahead datePattern) corpus1 = [corpus1]"
  by (simp add: corpus1_def jsSplit_def regex_eval splitLoop_block splitLoop_block_end)

lemma trim_corpus1: "length (trim corpus1) = 927"
  by (simp add: corpus1_def str_def trim_eval)

lemma rawNewsletters_corpus1: "rawNewsletters corpus1 = [corpus1]"
  by (simp add: rawNewsletters_def split_corpus1 trim_corpus1)

lemma date_corpus1: "newsletterDate corpus1 = str ''March 3, 2021''"
  by (simp add: newsletterDate_def corpus1_def regex_eval)

lemma split_paragraphs_corpus1:
  "jsSplit paragraphSep corpus1 = [str ''March 3, 2021'', str ''On Divorce'', replicate 900 0x78]"
  by (simp add: corpus1_def jsSplit_def regex_eval splitLoop_block splitLoop_block_end)

lemma paragraphs_corpus1: "paragraphs corpus1 = [replicate 900 0x78]"
  by (simp add: paragraphs_def split_paragraphs_corpus1 str_def trim_eval)

text \<open>
  C1. On the corpus of the scenario the chunker returns one chunk, and its title is the
  date: the paragraph \<open>On Divorce\<close> has 10 code units, the filter keeps paragraphs of
  more than 50 only, and so the heading test never sees it.
\<close>

theorem on_divorce_chunks:
  "splitIntoChunks corpus1 =
     [\<lparr>text' = replicate 900 0x78, title = str ''March 3, 2021'', date = str ''March 3, 2021''\<rparr>]"
  by (simp add: splitIntoChunks_def rawNewsletters_corpus1 processNewsletter_def date_corpus1
      paragraphs_corpus1 walkStep_def Let_def trim_block trim_block_nl isSpace_numeral
      isHeader_block flush_def)

text \<open>
  No layout of the corpus helps: a title is \<open>Unknown\<close>, a match of the date pattern,
  which has at least 11 code units, or a heading of more than 50.
\<close>

theorem no_title_on_divorce:
  "c \<in> set (splitIntoChunks content) \<Longrightarrow> title c \<noteq> str ''On Divorce''"
proof
  assume c: "c \<in> set (splitIntoChunks content)" and t: "title c = str ''On Divorce''"
  from c have "titled content c" by (rule titled_all)
  then obtain nl where h: "title c = newsletterDate nl \<or> headingOf nl (title c)"
    unfolding titled_def by blast
  have len: "length (title c) = 10" using t by (simp add: str_def)
  from h show False
  proof
    assume d: "title c = newsletterDate nl"
    show False
    proof (cases "firstMatch datePattern nl")
      case None
      with d t show False by (simp add: newsletterDate_def str_def)
    next
      case (Some x)
      then have "11 \<le> length x" by (rule firstMatch_date_length)
      with Some d len show False by (simp add: newsletterDate_def)
    qed
  next
    assume "headingOf nl (title c)"
    then have "50 < length (title c)" unfolding headingOf_def by blast
    with len show False by simp
  qed
qed

section \<open>Properties of the similarity and of the ranking\<close>

subsection \<open>Cosine similarity\<close>

lemma simLoop_swap:
  "length a = length b \<Longrightarrow>
     simLoop b a (d, nb, na) = map_option (\<lambda>(d', x, y). (d', y, x)) (simLoop a b (d, na, nb))"
proof (induction a b arbitrary: d na nb rule: list_induct2)
  case Nil
  then show ?case by simp
next
  case (Cons x xs y ys)
  show ?case using Cons.IH [of "d + x * y" "nb + y * y" "na + x * x"]
    by (simp add: mult.commute)
qed

text \<open>
  C7. For two vectors of the same dimension the cosine similarity does not depend on
  their order, whether it is a number or \<open>NaN\<close>.
\<close>

theorem cosine_symmetric:
  "length a = length b \<Longrightarrow> cosineSimilarity a b = cosineSimilarity b a"
  using simLoop_swap [of a b 0 0 0]
  by (auto simp: cosineSimilarity_def mult.commute split: option.splits)

theorem cosine_symmetric_witness:
  "length [1, 2 :: real] = length [3, 4 :: real]
   \<and> cosineSimilarity [1, 2] [3, 4] = cosineSimilarity [3, 4] [1, 2]"
  using cosine_symmetric [of "[1, 2]" "[3, 4]"] by simp

text \<open>
  With exact arithmetic the similarity is never an infinity: where a norm is zero, so is
  the dot product.
\<close>

lemma simLoop_zero:
  "simLoop a b (d, na, nb) = Some (d', na', nb') \<Longrightarrow> 0 \<le> na \<Longrightarrow> 0 \<le> nb
     \<Longrightarrow> (na = 0 \<longrightarrow> d = 0) \<Longrightarrow> (nb = 0 \<longrightarrow> d = 0)
     \<Longrightarrow> 0 \<le> na' \<and> 0 \<le> nb' \<and> (na' = 0 \<longrightarrow> d' = 0) \<and> (nb' = 0 \<longrightarrow> d' = 0)"
proof (induction a b "(d, na, nb)" arbitrary: d na nb rule: simLoop.induct)
  case (1 b)
  then show ?case by simp
next
  case (2 x a)
  then show ?case by simp
next
  case (3 x a y b dot normA normB)
  have "0 \<le> normA + x * x" "0 \<le> normB + y * y"
    using "3.prems" by simp_all
  moreover have "normA + x * x = 0 \<longrightarrow> dot + x * y = 0"
    using "3.prems" by (auto simp: add_nonneg_eq_0_iff)
  moreover have "normB + y * y = 0 \<longrightarrow> dot + x * y = 0"
    using "3.prems" by (auto simp: add_nonneg_eq_0_iff)
  ultimately show ?case using "3.hyps" "3.prems"(1) by simp
qed

lemma cosine_finite_or_NaN: "cosineSimilarity a b = NaN \<or> (\<exists>r. cosineSimilarity a b = Num r)"
proof (cases "simLoop a b (0, 0, 0)")
  case None
  then show ?thesis by (simp add: cosineSimilarity_def)
next
  case (Some r)
  obtain d na nb where r: "r = (d, na, nb)" by (cases r)
  from Some r simLoop_zero [of a b 0 0 0 d na nb]
  have "0 \<le> na" "0 \<le> nb" "na = 0 \<longrightarrow> d = 0" "nb = 0 \<longrightarrow> d = 0" by simp_all
  then show ?thesis using Some r
    by (auto simp: cosineSimilarity_def jsDivide_def)
qed

lemma cosine_examples:
  "cosineSimilarity [1] [1] = Num 1" "cosineSimilarity [1] [2] = Num 1"
  "cosineSimilarity [1] [- 1] = Num (- 1)" "cosineSimilarity [1] [0] = NaN"
  by (simp_all add: cosineSimilarity_def jsDivide_def)

subsection \<open>Ranking\<close>


lemma length_insertBy: "length (insertBy cmp x ys) = Suc (length ys)"
  by (induction ys) auto

lemma length_jsSort: "length (jsSort cmp xs) = length xs"
  by (induction xs) (auto simp: jsSort_def length_insertBy)

lemma length_rankChunks:
  "length (rankChunks sim q cs topK) =
     (if topK < 0 then nat (int (length cs) + topK) else min (nat topK) (length cs))"
  by (auto simp: rankChunks_def jsSlice0_def length_jsSort scoreChunks_def)

lemma positive_jsMinus:
  "x \<noteq> NaN \<Longrightarrow> y \<noteq> NaN \<Longrightarrow> positive (jsMinus y x) \<longleftrightarrow> \<not> descKey x \<le> descKey y"
  by (cases x; cases y) (auto simp: less_eq_prod_def)

lemma jsGe_descKey:
  "x \<noteq> NaN \<Longrightarrow> y \<noteq> NaN \<Longrightarrow> jsGe x y \<longleftrightarrow> descKey x \<le> descKey y"
  by (cases x; cases y) (auto simp: less_eq_prod_def)

lemma descKey_inject:
  "x \<noteq> NaN \<Longrightarrow> y \<noteq> NaN \<Longrightarrow> descKey x = descKey y \<longleftrightarrow> x = y"
  by (cases x; cases y) auto

lemma positive_byScore:
  "numeric x \<Longrightarrow> numeric y \<Longrightarrow> positive (byScore x y) \<longleftrightarrow> \<not> sortKey x \<le> sortKey y"
  by (simp add: numeric_def byScore_def sortKey_def positive_jsMinus)

lemma insertBy_insort:
  "numeric x \<Longrightarrow> \<forall>y \<in> set ys. numeric y \<Longrightarrow> insertBy byScore x ys = insort_key sortKey x ys"
  by (induction ys) (auto simp: positive_byScore)

lemma jsSort_sort_key:
  "\<forall>x \<in> set xs. numeric x \<Longrightarrow> jsSort byScore xs = sort_key sortKey xs"
proof (induction xs)
  case Nil
  then show ?case by (simp add: jsSort_def)
next
  case (Cons x xs)
  then have IH: "foldr (insertBy byScore) xs [] = sort_key sortKey xs"
    by (simp add: jsSort_def)
  have "\<forall>y \<in> set (sort_key sortKey xs). numeric y"
    using Cons.prems by simp
  then show ?case using Cons.prems IH
    by (simp add: jsSort_def insertBy_insort sort_key_def)
qed

lemma scoreChunks_numeric:
  "\<forall>c \<in> set cs. sim q (embedding c) \<noteq> NaN
     \<Longrightarrow> \<forall>p \<in> set (scoreChunks sim q cs). numeric p"
  by (auto simp: scoreChunks_def scoreOf_def numeric_def)

lemma scoreChunks_elem:
  "p \<in> set (scoreChunks sim q cs) \<Longrightarrow> snd p = sim q (embedding (fst p))"
  by (auto simp: scoreChunks_def scoreOf_def)

lemma jsSlice0_map: "map g (jsSlice0 k xs) = jsSlice0 k (map g xs)"
  by (simp add: jsSlice0_def take_map)

lemma jsSlice0_prefix: "\<exists>rest. xs = jsSlice0 k xs @ rest"
  by (metis jsSlice0_def append_take_drop_id)

text \<open>
  Without a score that is \<open>NaN\<close>, the sorted chunk list is the chunk list rearranged in
  order of non-increasing score, the chunks of each score in the order they had.
\<close>

lemma sorted_chunks:
  assumes num: "\<forall>c \<in> set cs. sim q (embedding c) \<noteq> NaN"
  defines "ranked \<equiv> map fst (jsSort byScore (scoreChunks sim q cs))"
  shows "nonIncreasing sim q ranked" and "mset ranked = mset cs"
    and "filter (\<lambda>c. sim q (embedding c) = s) ranked = filter (\<lambda>c. sim q (embedding c) = s) cs"
proof -
  let ?score = "\<lambda>c. sim q (embedding c)"
  let ?sorted = "sort_key sortKey (scoreChunks sim q cs)"
  have allnum: "\<forall>p \<in> set (scoreChunks sim q cs). numeric p"
    using num by (rule scoreChunks_numeric)
  have ranked: "ranked = map fst ?sorted"
    unfolding ranked_def using allnum by (simp add: jsSort_sort_key)
  have fst_scored: "map fst (scoreChunks sim q cs) = cs"
    by (simp add: scoreChunks_def comp_def)
  have elem: "?score (fst p) \<noteq> NaN" "sortKey p = descKey (?score (fst p))"
    if "p \<in> set (scoreChunks sim q cs)" for p
    using num that by (auto simp: scoreChunks_def scoreOf_def sortKey_def)
  show perm: "mset ranked = mset cs"
  proof -
    have "mset ranked = image_mset fst (mset ?sorted)" by (simp add: ranked)
    also have "\<dots> = image_mset fst (mset (scoreChunks sim q cs))" by simp
    also have "\<dots> = mset (map fst (scoreChunks sim q cs))" by simp
    finally show ?thesis by (simp only: fst_scored)
  qed
  have "sorted (map sortKey ?sorted)" by simp
  then have "sorted_wrt (\<lambda>p p'. sortKey p \<le> sortKey p') ?sorted"
    by (simp add: sorted_map)
  then have "sorted_wrt (\<lambda>p p'. jsGe (?score (fst p)) (?score (fst p'))) ?sorted"
  proof (rule sorted_wrt_mono_rel [rotated])
    fix p p'
    assume "p \<in> set ?sorted" and "p' \<in> set ?sorted" and le: "sortKey p \<le> sortKey p'"
    then have p: "p \<in> set (scoreChunks sim q cs)" and p': "p' \<in> set (scoreChunks sim q cs)"
      by simp_all
    note a = elem [OF p] and b = elem [OF p']
    from le show "jsGe (?score (fst p)) (?score (fst p'))"
      unfolding a(2) b(2) using a(1) b(1) by (simp add: jsGe_descKey)
  qed
  then have "sorted_wrt (\<lambda>c d. jsGe (?score c) (?score d)) (map fst ?sorted)"
    by (simp add: sorted_wrt_map)
  then show "nonIncreasing sim q ranked"
    by (simp add: nonIncreasing_def ranked)
  have setr: "set ranked = set cs"
    using perm by (rule mset_eq_setD)
  show "filter (\<lambda>c. ?score c = s) ranked = filter (\<lambda>c. ?score c = s) cs"
  proof (cases "s = NaN")
    case True
    have "\<forall>c \<in> set cs. ?score c \<noteq> s"
      using num True by simp
    then have "filter (\<lambda>c. ?score c = s) cs = []" "filter (\<lambda>c. ?score c = s) ranked = []"
      unfolding filter_empty_conv setr by simp_all
    then show ?thesis by simp
  next
    case False
    have same: "(?score (fst p) = s) = (sortKey p = descKey s)"
      if p: "p \<in> set (scoreChunks sim q cs)" for p
    proof -
      note a = elem [OF p]
      show ?thesis unfolding a(2) using a(1) False by (simp add: descKey_inject)
    qed
    have "filter (\<lambda>c. ?score c = s) ranked = map fst (filter (\<lambda>p. ?score (fst p) = s) ?sorted)"
      by (simp add: ranked filter_map comp_def)
    also have "filter (\<lambda>p. ?score (fst p) = s) ?sorted = filter (\<lambda>p. sortKey p = descKey s) ?sorted"
      using same by (intro filter_cong) auto
    also have "\<dots> = filter (\<lambda>p. sortKey p = descKey s) (scoreChunks sim q cs)"
      by (rule sort_key_stable)
    also have "\<dots> = filter (\<lambda>p. ?score (fst p) = s) (scoreChunks sim q cs)"
      using same by (intro filter_cong) auto
    also have "map fst \<dots> = filter (\<lambda>c. ?score c = s) (map fst (scoreChunks sim q cs))"
      by (simp add: filter_map comp_def)
    finally show ?thesis by (simp only: fst_scored)
  qed
qed

lemma nonIncreasing_prefix: "nonIncreasing sim q (xs @ ys) \<Longrightarrow> nonIncreasing sim q xs"
  by (simp add: nonIncreasing_def sorted_wrt_append)

text \<open>
  C5, as amended. The ranking never returns more chunks than it was given, and for a
  \<open>topK\<close> that is not negative it returns the smaller of \<open>topK\<close> and the number of chunks:
  at most \<open>topK\<close>, and all of them when there are fewer than \<open>topK\<close>; a negative \<open>topK\<close>
  counts from the end and leaves out the last \<open>-topK\<close> chunks. When no score is \<open>NaN\<close>,
  the chunks returned are in order of non-increasing score, and they are the first ones of the whole chunk
  list sorted: of a rearrangement of the chunk list that is in order of non-increasing
  score and in which, for every score, the chunks with that score stand in the order
  they had in the list. The score of a chunk \<open>c\<close> is \<open>sim q (embedding c)\<close> for any \<open>sim\<close>, so
  the one that the machine computes.
\<close>

theorem ranking:
  "length (rankChunks sim q cs topK) \<le> length cs
   \<and> length (rankChunks sim q cs topK)
       = (if 0 \<le> topK then min (nat topK) (length cs) else nat (int (length cs) + topK))
   \<and> ((\<forall>c \<in> set cs. sim q (embedding c) \<noteq> NaN) \<longrightarrow>
        nonIncreasing sim q (rankChunks sim q cs topK)
        \<and> (\<exists>rest. nonIncreasing sim q (rankChunks sim q cs topK @ rest)
              \<and> mset (rankChunks sim q cs topK @ rest) = mset cs
              \<and> (\<forall>s. filter (\<lambda>c. sim q (embedding c) = s) (rankChunks sim q cs topK @ rest)
                      = filter (\<lambda>c. sim q (embedding c) = s) cs)))"
proof (intro conjI impI)
  show "length (rankChunks sim q cs topK) \<le> length cs"
    by (auto simp: length_rankChunks)
next
  show "length (rankChunks sim q cs topK)
      = (if 0 \<le> topK then min (nat topK) (length cs) else nat (int (length cs) + topK))"
    by (simp add: length_rankChunks)
next
  assume num: "\<forall>c \<in> set cs. sim q (embedding c) \<noteq> NaN"
  define ranked where "ranked = map fst (jsSort byScore (scoreChunks sim q cs))"
  have "rankChunks sim q cs topK = jsSlice0 topK ranked"
    by (simp add: rankChunks_def ranked_def jsSlice0_map)
  then obtain rest where rest: "ranked = rankChunks sim q cs topK @ rest"
    using jsSlice0_prefix [of ranked topK] by auto
  have sorted_ranked: "nonIncreasing sim q ranked"
    and perm: "mset ranked = mset cs"
    and stable: "\<And>s. filter (\<lambda>c. sim q (embedding c) = s) ranked
        = filter (\<lambda>c. sim q (embedding c) = s) cs"
    unfolding ranked_def using num by (rule sorted_chunks)+
  show "nonIncreasing sim q (rankChunks sim q cs topK)"
    using sorted_ranked unfolding rest by (rule nonIncreasing_prefix)
  show "\<exists>rest. nonIncreasing sim q (rankChunks sim q cs topK @ rest)
      \<and> mset (rankChunks sim q cs topK @ rest) = mset cs
      \<and> (\<forall>s. filter (\<lambda>c. sim q (embedding c) = s) (rankChunks sim q cs topK @ rest)
              = filter (\<lambda>c. sim q (embedding c) = s) cs)"
    using sorted_ranked perm stable unfolding rest by blast
qed

theorem ranking_witness:
  "(0::int) \<le> 2
   \<and> cosineSimilarity [1] (embedding (exampleChunk ''A'' [- 1])) = Num (- 1)
   \<and> cosineSimilarity [1] (embedding (exampleChunk ''B'' [1])) = Num 1
   \<and> cosineSimilarity [1] (embedding (exampleChunk ''C'' [2])) = Num 1
   \<and> rankChunks cosineSimilarity [1]
        [exampleChunk ''A'' [- 1], exampleChunk ''B'' [1], exampleChunk ''C'' [2]] 2
     = [exampleChunk ''B'' [1], exampleChunk ''C'' [2]]
   \<and> nonIncreasing cosineSimilarity [1] [exampleChunk ''B'' [1], exampleChunk ''C'' [2]]"
  using ranking [where sim = cosineSimilarity and q = "[1]" and topK = 2
      and cs = "[exampleChunk ''A'' [- 1], exampleChunk ''B'' [1], exampleChunk ''C'' [2]]"]
  by (simp add: exampleChunk_def scoreOf_def nonIncreasing_def cosine_examples rankChunks_def
      scoreChunks_def jsSort_def byScore_def jsSlice0_def)

text \<open>
  The claim as stated fails in two ways. With \<open>topK = -1\<close>, \<open>slice(0, -1)\<close> drops the
  last element only, and three chunks give two, which is more than \<open>topK\<close>. And a chunk
  whose embedding is all zeros has the score \<open>NaN\<close>, the quotient of zero by zero, which
  is neither at least nor at most any score: of such a chunk and another, the ranking
  returns both, and neither order of the two is non-increasing. (On these vectors
  every operation of \<open>cosineSimilarity\<close> is exact in double precision, and every
  comparison that \<open>sort\<close> can make of the two pairs gives \<open>NaN\<close>, so that they stay as
  they were.)
\<close>

theorem ranking_counterexample:
  "length (rankChunks cosineSimilarity [1]
     [exampleChunk ''A'' [- 1], exampleChunk ''B'' [1], exampleChunk ''C'' [2]] (- 1)) = 2
   \<and> cosineSimilarity [1] (embedding (exampleChunk ''Z'' [0])) = NaN
   \<and> rankChunks cosineSimilarity [1] [exampleChunk ''Z'' [0], exampleChunk ''B'' [1]] 2
     = [exampleChunk ''Z'' [0], exampleChunk ''B'' [1]]
   \<and> \<not> nonIncreasing cosineSimilarity [1] [exampleChunk ''Z'' [0], exampleChunk ''B'' [1]]
   \<and> \<not> nonIncreasing cosineSimilarity [1] [exampleChunk ''B'' [1], exampleChunk ''Z'' [0]]"
  by (simp add: length_rankChunks exampleChunk_def scoreOf_def nonIncreasing_def
      cosine_examples rankChunks_def scoreChunks_def jsSort_def byScore_def jsSlice0_def)

subsection \<open>Ranking on the heap\<close>

lemma keeps_refl: "keeps h h"
  by (simp add: keeps_def)

lemma keeps_trans: "keeps h h1 \<Longrightarrow> keeps h1 h2 \<Longrightarrow> keeps h h2"
proof -
  assume a: "keeps h h1" and b: "keeps h1 h2"
  have "take (length h) h2 = take (length h) (take (length h1) h2)"
    using a by (simp add: keeps_def min_def)
  also have "\<dots> = h" using a b by (simp add: keeps_def)
  finally show ?thesis using a b by (simp add: keeps_def)
qed

lemma keeps_append: "keeps h (h @ t)"
  by (simp add: keeps_def)

lemma keeps_update: "length h \<le> a \<Longrightarrow> keeps h h' \<Longrightarrow> keeps h (h'[a := ob])"
  by (simp add: keeps_def)

lemma keeps_lookup: "keeps h h' \<Longrightarrow> r < length h \<Longrightarrow> lookup h' r = lookup h r"
proof -
  assume k: "keeps h h'" and r: "r < length h"
  have "h ! r = take (length h) h' ! r" using k by (simp add: keeps_def)
  also have "\<dots> = h' ! r" using r by simp
  finally show ?thesis using k r by (simp add: keeps_def lookup_def)
qed

lemma chunkAt_less: "chunkAt h r = Some c \<Longrightarrow> r < length h"
  by (auto simp: chunkAt_def lookup_def split: if_splits)

lemma keeps_chunkAt: "keeps h h' \<Longrightarrow> chunkAt h r = Some c \<Longrightarrow> chunkAt h' r = Some c"
  using keeps_lookup [of h h' r] chunkAt_less [of h r c] by (simp add: chunkAt_def)

lemma scoredAt_less: "scoredAt h r = Some p \<Longrightarrow> r < length h"
  by (auto simp: scoredAt_def lookup_def split: if_splits)

lemma keeps_scoredAt: "keeps h h' \<Longrightarrow> scoredAt h r = Some p \<Longrightarrow> scoredAt h' r = Some p"
  using keeps_lookup [of h h' r] scoredAt_less [of h r p] by (simp add: scoredAt_def)

lemma arrayAt_less: "arrayAt h r = Some p \<Longrightarrow> r < length h"
  by (auto simp: arrayAt_def lookup_def split: if_splits)

lemma keeps_arrayAt: "keeps h h' \<Longrightarrow> arrayAt h r = Some p \<Longrightarrow> arrayAt h' r = Some p"
  using keeps_lookup [of h h' r] arrayAt_less [of h r p] by (simp add: arrayAt_def)

lemma map_Some_iff: "map f xs = map Some ys \<longleftrightarrow> list_all2 (\<lambda>x y. f x = Some y) xs ys"
  by (auto simp: list_all2_conv_all_nth list_eq_iff_nth_eq)

lemma map_Some_mono:
  assumes "map f xs = map Some ys" and "\<And>x y. f x = Some y \<Longrightarrow> f' x = Some y"
  shows "map f' xs = map Some ys"
  using assms unfolding map_Some_iff by (auto elim: list_all2_mono)

lemma those_map_Some:
  "(\<And>x. x \<in> set xs \<Longrightarrow> f x = Some (g x)) \<Longrightarrow> those (map f xs) = Some (map g xs)"
  by (induction xs) auto

lemma map_Some_the: "map f xs = map Some ys \<Longrightarrow> map (\<lambda>x. the (f x)) xs = ys"
  unfolding map_Some_iff by (induction rule: list_all2_induct) auto

lemma map_Some_elem: "map f xs = map Some ys \<Longrightarrow> x \<in> set xs \<Longrightarrow> f x = Some (the (f x))"
  unfolding map_Some_iff by (induction rule: list_all2_induct) auto

text \<open>The scoring pass allocates one pair for each chunk, in order, and writes nowhere else.\<close>

lemma scoreEach_spec:
  "map (chunkAt h) rs = map Some cs \<Longrightarrow>
     \<exists>as h'. scoreEach sim q rs h = Some (as, h') \<and> keeps h h'
       \<and> map (scoredAt h') as = map Some (zip rs (map snd (scoreChunks sim q cs)))
       \<and> length as = length rs"
proof (induction rs arbitrary: h cs)
  case Nil
  then show ?case by (simp add: keeps_refl scoreChunks_def)
next
  case (Cons r rs)
  from Cons.prems obtain c cs' where cs: "cs = c # cs'" and c: "chunkAt h r = Some c"
    and rest: "map (chunkAt h) rs = map Some cs'"
    by (cases cs) auto
  let ?ob = "ScoredObj r (scoreOf sim q c)"
  let ?h1 = "h @ [?ob]"
  have k1: "keeps h ?h1" by (rule keeps_append)
  have "map (chunkAt ?h1) rs = map Some cs'"
  proof (rule nth_equalityI)
    show "length (map (chunkAt ?h1) rs) = length (map Some cs')"
      using rest by (metis length_map)
  next
    fix i assume "i < length (map (chunkAt ?h1) rs)"
    then have i: "i < length rs" by simp
    then have "chunkAt h (rs ! i) = Some (cs' ! i)"
      using rest by (metis length_map nth_map)
    then have "chunkAt ?h1 (rs ! i) = Some (cs' ! i)"
      using k1 by (rule keeps_chunkAt [rotated])
    moreover have "i < length cs'" using i rest by (metis length_map)
    ultimately show "map (chunkAt ?h1) rs ! i = map Some cs' ! i"
      using i by simp
  qed
  from Cons.IH [OF this] obtain as h' where
    run: "scoreEach sim q rs ?h1 = Some (as, h')" and k2: "keeps ?h1 h'"
    and sc: "map (scoredAt h') as = map Some (zip rs (map snd (scoreChunks sim q cs')))"
    and len: "length as = length rs"
    by blast
  have "scoredAt ?h1 (length h) = Some (r, scoreOf sim q c)"
    by (simp add: scoredAt_def lookup_def)
  then have here: "scoredAt h' (length h) = Some (r, scoreOf sim q c)"
    using k2 by (rule keeps_scoredAt [rotated])
  have "scoreEach sim q (r # rs) h = Some (length h # as, h')"
    using c run by (simp add: alloc_def)
  moreover have "keeps h h'" using k1 k2 by (rule keeps_trans)
  moreover have "map (scoredAt h') (length h # as)
      = map Some (zip (r # rs) (map snd (scoreChunks sim q cs)))"
    using here sc cs by (simp add: scoreChunks_def)
  ultimately show ?case using len by simp
qed

text \<open>Sorting references gives what sorting the things they point to gives.\<close>

lemma insertBy_map:
  assumes "\<And>y. y \<in> set ys \<Longrightarrow> cmp' (g x) (g y) = cmp x y"
  shows "map g (insertBy cmp x ys) = insertBy cmp' (g x) (map g ys)"
  using assms by (induction ys) auto

lemma set_insertBy: "set (insertBy cmp x ys) = insert x (set ys)"
  by (induction ys) auto

lemma set_jsSort: "set (jsSort cmp xs) = set xs"
  by (induction xs) (auto simp: jsSort_def set_insertBy)

lemma jsSort_map:
  assumes "\<And>x y. x \<in> set xs \<Longrightarrow> y \<in> set xs \<Longrightarrow> cmp' (g x) (g y) = cmp x y"
  shows "map g (jsSort cmp xs) = jsSort cmp' (map g xs)"
  using assms
proof (induction xs)
  case Nil
  then show ?case by (simp add: jsSort_def)
next
  case (Cons x xs)
  have IH: "map g (jsSort cmp xs) = jsSort cmp' (map g xs)"
    by (rule Cons.IH) (simp add: Cons.prems)
  have "map g (insertBy cmp x (jsSort cmp xs)) = insertBy cmp' (g x) (map g (jsSort cmp xs))"
    by (rule insertBy_map) (simp add: Cons.prems set_jsSort)
  then show ?case using IH by (simp add: jsSort_def)
qed

lemma set_jsSlice0: "set (jsSlice0 k xs) \<subseteq> set xs"
  by (auto simp: jsSlice0_def dest: in_set_takeD)

text \<open>
  C9. Let \<open>a\<close> be the address of an array of chunks. Then the ranking returns, and every
  object that was on the heap before is there afterwards as it was: the array at \<open>a\<close> holds
  the same addresses and each of them the same chunk, with its text, title, date and
  embedding. What is returned is a new array, and the chunks it points to are those that
  \<open>rankChunks\<close> computes.
\<close>

theorem ranking_keeps_inputs:
  assumes arr: "arrayAt h a = Some rs"
    and cs: "map (chunkAt h) rs = map Some cs"
  shows "\<exists>r h' rs'. rankOnHeap sim q a topK h = Some (r, h')
      \<and> take (length h) h' = h
      \<and> arrayAt h' a = Some rs \<and> map (chunkAt h') rs = map Some cs
      \<and> arrayAt h' r = Some rs' \<and> map (chunkAt h') rs' = map Some (rankChunks sim q cs topK)"
proof -
  let ?scores = "map snd (scoreChunks sim q cs)"
  from scoreEach_spec [OF cs, of sim q] obtain as h1 where
    run1: "scoreEach sim q rs h = Some (as, h1)" and k1: "keeps h h1"
    and sc1: "map (scoredAt h1) as = map Some (zip rs ?scores)"
    by blast
  define pairOf where "pairOf r = the (scoredAt h1 r)" for r
  have pairs: "map pairOf as = zip rs ?scores"
    unfolding pairOf_def using sc1 by (rule map_Some_the)
  have at1: "scoredAt h1 r = Some (pairOf r)" if "r \<in> set as" for r
    unfolding pairOf_def using sc1 that by (rule map_Some_elem)
  define h2 where "h2 = h1 @ [ArrayObj as]"
  have k2: "keeps h1 h2" unfolding h2_def by (rule keeps_append)
  have arr2: "arrayAt h2 (length h1) = Some as"
    by (simp add: h2_def arrayAt_def lookup_def)
  have at2: "scoredAt h2 r = Some (pairOf r)" if "r \<in> set as" for r
    using k2 at1 [OF that] by (rule keeps_scoredAt)
  define cmp where "cmp = (\<lambda>x y. jsMinus (scoreAt h2 y) (scoreAt h2 x))"
  define srt where "srt = jsSort cmp as"
  define h3 where "h3 = h2[length h1 := ArrayObj srt]"
  have all2: "list_all (\<lambda>r. scoredAt h2 r \<noteq> None) as"
    using at2 by (simp add: list_all_iff)
  have run2: "sortInPlace h2 (length h1) = Some h3"
    using arr2 all2 by (simp add: sortInPlace_def h3_def srt_def cmp_def)
  have k3: "keeps h1 h3"
    unfolding h3_def using k2 by (intro keeps_update) simp_all
  have arr3: "arrayAt h3 (length h1) = Some srt"
    by (simp add: h3_def h2_def arrayAt_def lookup_def)
  define sl where "sl = jsSlice0 topK srt"
  define h4 where "h4 = h3 @ [ArrayObj sl]"
  have run3: "sliceArray h3 (length h1) topK = Some (length h3, h4)"
    using arr3 by (simp add: sliceArray_def alloc_def h4_def sl_def)
  have k4: "keeps h1 h4"
    using k3 unfolding h4_def by (rule keeps_trans) (rule keeps_append)
  have arr4: "arrayAt h4 (length h3) = Some sl"
    by (simp add: h4_def arrayAt_def lookup_def)
  have sl_as: "set sl \<subseteq> set as"
    using set_jsSlice0 [of topK srt] by (simp add: sl_def srt_def set_jsSort)
  have at4: "scoredAt h4 r = Some (pairOf r)" if "r \<in> set sl" for r
  proof -
    from that sl_as have "r \<in> set as" by blast
    then have "scoredAt h1 r = Some (pairOf r)" by (rule at1)
    with k4 show ?thesis by (rule keeps_scoredAt)
  qed
  define rs' where "rs' = map (\<lambda>r. fst (pairOf r)) sl"
  define h5 where "h5 = h4 @ [ArrayObj rs']"
  have "those (map (\<lambda>r. map_option fst (scoredAt h4 r)) sl) = Some rs'"
    unfolding rs'_def by (rule those_map_Some) (simp add: at4)
  then have run4: "chunksOf h4 (length h3) = Some (length h4, h5)"
    using arr4 by (simp add: chunksOf_def alloc_def h5_def)
  have run: "rankOnHeap sim q a topK h = Some (length h4, h5)"
    using arr run1 run2 run3 run4 by (simp add: rankOnHeap_def alloc_def h2_def)
  have k5: "keeps h h5"
    using k1 k4 unfolding h5_def by (blast intro: keeps_trans keeps_append)
  have arr5: "arrayAt h5 (length h4) = Some rs'"
    by (simp add: h5_def arrayAt_def lookup_def)
  have in5: "map (chunkAt h5) rs = map Some cs"
    using cs by (rule map_Some_mono) (rule keeps_chunkAt [OF k5])
  define G where "G r = (the (chunkAt h (fst (pairOf r))), snd (pairOf r))" for r
  have len: "length rs = length cs"
    using cs by (metis length_map)
  have chunks: "map (\<lambda>r. the (chunkAt h r)) rs = cs"
    using cs by (rule map_Some_the)
  have "map G as = map (\<lambda>p. (the (chunkAt h (fst p)), snd p)) (map pairOf as)"
    by (simp add: G_def comp_def)
  also have "\<dots> = zip (map (\<lambda>r. the (chunkAt h r)) rs) ?scores"
    unfolding pairs by (simp add: zip_map1 case_prod_unfold)
  also have "\<dots> = scoreChunks sim q cs"
    unfolding chunks by (simp add: scoreChunks_def zip_map2 zip_same_conv_map comp_def)
  finally have G_as: "map G as = scoreChunks sim q cs" .
  have agree: "byScore (G x) (G y) = cmp x y" if "x \<in> set as" "y \<in> set as" for x y
    using at2 [OF that(1)] at2 [OF that(2)]
    by (simp add: byScore_def cmp_def G_def scoreAt_def case_prod_unfold)
  have "map G srt = jsSort byScore (map G as)"
    unfolding srt_def using agree by (rule jsSort_map)
  then have G_sl: "map G sl = jsSlice0 topK (jsSort byScore (scoreChunks sim q cs))"
    by (simp add: sl_def jsSlice0_map G_as)
  have refs: "chunkAt h5 (fst (pairOf r)) = Some (fst (G r))" if r: "r \<in> set sl" for r
  proof -
    from r sl_as have "pairOf r \<in> set (map pairOf as)" by auto
    then have "(fst (pairOf r), snd (pairOf r)) \<in> set (zip rs ?scores)"
      unfolding pairs by simp
    then have "fst (pairOf r) \<in> set rs"
      by (rule set_zip_leftD)
    with cs have "chunkAt h (fst (pairOf r)) = Some (the (chunkAt h (fst (pairOf r))))"
      by (rule map_Some_elem)
    then have "chunkAt h5 (fst (pairOf r)) = Some (the (chunkAt h (fst (pairOf r))))"
      using k5 by (rule keeps_chunkAt [rotated])
    then show ?thesis by (simp add: G_def)
  qed
  have "map (chunkAt h5) rs' = map Some (map fst (map G sl))"
    using refs by (simp add: rs'_def comp_def)
  then have out: "map (chunkAt h5) rs' = map Some (rankChunks sim q cs topK)"
    by (simp only: G_sl rankChunks_def)
  have "take (length h) h5 = h" using k5 by (simp add: keeps_def)
  moreover have "arrayAt h5 a = Some rs" using k5 arr by (rule keeps_arrayAt)
  ultimately show ?thesis using run in5 arr5 out by blast
qed

theorem ranking_keeps_inputs_witness:
  "arrayAt exampleHeap 2 = Some [0, 1]
   \<and> map (chunkAt exampleHeap) [0, 1] = map Some [exampleChunk ''A'' [- 1], exampleChunk ''B'' [1]]
   \<and> (\<exists>r h' rs'. rankOnHeap cosineSimilarity [1] 2 1 exampleHeap = Some (r, h')
        \<and> take (length exampleHeap) h' = exampleHeap
        \<and> arrayAt h' 2 = Some [0, 1]
        \<and> map (chunkAt h') [0, 1] = map Some [exampleChunk ''A'' [- 1], exampleChunk ''B'' [1]]
        \<and> arrayAt h' r = Some rs'
        \<and> map (chunkAt h') rs'
            = map Some (rankChunks cosineSimilarity [1]
                [exampleChunk ''A'' [- 1], exampleChunk ''B'' [1]] 1))"
  using ranking_keeps_inputs [where h = exampleHeap and a = 2 and rs = "[0, 1]"
      and cs = "[exampleChunk ''A'' [- 1], exampleChunk ''B'' [1]]"
      and sim = cosineSimilarity and q = "[1]" and topK = 1]
  by (simp add: exampleHeap_def arrayAt_def chunkAt_def lookup_def)

section \<open>Properties of the answer generator and of the request handler\<close>

subsection \<open>Sources\<close>

lemma foldl_setAdd:
  "foldl setAdd acc xs = acc @ keepFirst (filter (\<lambda>x. x \<notin> set acc) xs)"
proof (induction xs arbitrary: acc)
  case Nil
  then show ?case by simp
next
  case (Cons x xs)
  show ?case
  proof (cases "x \<in> set acc")
    case True
    then show ?thesis using Cons.IH [of acc] by (simp add: setAdd_def)
  next
    case False
    have "removeAll x (filter (\<lambda>y. y \<notin> set acc) xs) = filter (\<lambda>y. y \<notin> set (acc @ [x])) xs"
      by (induction xs) auto
    then show ?thesis using False Cons.IH [of "acc @ [x]"] by (simp add: setAdd_def)
  qed
qed

lemma newSet_keepFirst: "newSet xs = keepFirst xs"
  using foldl_setAdd [of "[]" xs] by (simp add: newSet_def)

lemma set_keepFirst: "set (keepFirst xs) = set xs"
  by (induction xs rule: keepFirst.induct) auto

lemma distinct_keepFirst: "distinct (keepFirst xs)"
  by (induction xs rule: keepFirst.induct) (auto simp: set_keepFirst)

text \<open>
  C8. When the request has a query, the ranking returns the chunk list \<open>relevant\<close> and
  the generator returns an answer, the sources of the response are the titles of
  \<open>relevant\<close> without their repetitions, each title where it first stood: the list has
  no element twice and has exactly the titles of \<open>relevant\<close>.
\<close>

theorem sources_first_appearance:
  assumes "body = Inr b"
    and "getProp (Some b) Query = Inr (Some query)"
    and "truthy (Some query)"
    and "findRelevant query = Inr relevant"
    and "generate query (contextOf relevant) = Inr a"
  shows "POST body findRelevant generate = Answered a (keepFirst (map title relevant))
    \<and> distinct (keepFirst (map title relevant))
    \<and> set (keepFirst (map title relevant)) = title ` set relevant"
  using assms
  by (simp add: POST_def andThen_def newSet_keepFirst distinct_keepFirst set_keepFirst)

theorem sources_first_appearance_witness:
  "POST (Inr (JObj [(str ''query'', JStr (str ''divorce''))]))
     (\<lambda>q. Inr [exampleChunk ''B'' [1], exampleChunk ''C'' [2], exampleChunk ''B'' [3]])
     (\<lambda>q c. Inr (Some (JStr (str ''answer''))))
   = Answered (Some (JStr (str ''answer''))) [str ''B'', str ''C'']"
  using sources_first_appearance [of "Inr (JObj [(str ''query'', JStr (str ''divorce''))])"
      "JObj [(str ''query'', JStr (str ''divorce''))]" "JStr (str ''divorce'')"
      "\<lambda>q. Inr [exampleChunk ''B'' [1], exampleChunk ''C'' [2], exampleChunk ''B'' [3]]"
      "[exampleChunk ''B'' [1], exampleChunk ''C'' [2], exampleChunk ''B'' [3]]"
      "\<lambda>q c. Inr (Some (JStr (str ''answer'')))" "Some (JStr (str ''answer''))"]
  by (simp add: exampleChunk_def str_def)

subsection \<open>The answer generator\<close>

lemma tryCatch_caught: "tryCatch body (\<lambda>e. Inr None) \<noteq> Inl x"
  by (cases body) (simp_all add: tryCatch_def)

lemma primary_unusable:
  "\<not> primaryUsable ev svc prompt query \<Longrightarrow> OPENROUTER_API_KEY ev = Some key \<Longrightarrow> key \<noteq> []
     \<Longrightarrow> tryCatch (primaryAttempt svc key prompt query) (\<lambda>e. Inr None) = Inr None"
  by (auto simp: primaryUsable_def primaryAttempt_def tryCatch_def andThen_def split: sum.splits)

lemma fallback_result:
  "tryCatch (fallbackAttempt svc prompt query) (\<lambda>e. Inr None) =
     (case generateContent svc (prompt @ [0xA, 0xA] @ str ''Question: '' @ query) of
        Inl e \<Rightarrow> Inr None
      | Inr t \<Rightarrow> Inr (Some (Some (JStr t))))"
  by (simp add: fallbackAttempt_def tryCatch_def andThen_def split: sum.splits)

text \<open>
  C4. \<open>generateAnswer\<close> returns a value whatever the query, the context, the
  credentials and the backends do. When the primary backend is not usable (not
  configured, its call rejected, or its response without a content that counts as true),
  the value is what the fallback decides: the text of the fallback backend when that is
  configured and its call settles, and otherwise the fixed message. So when neither
  backend is available the value is exactly the fixed message.
\<close>

theorem generateAnswer_never_raises:
  "(\<exists>v. generateAnswer ev svc rules query context = Inr v)
   \<and> (\<not> primaryUsable ev svc (systemPrompt rules context) query \<longrightarrow>
        generateAnswer ev svc rules query context =
          Inr (Some (JStr
            (if configured (GEMINI_API_KEY ev)
             then (case generateContent svc (fallbackPrompt rules query context) of
                     Inr t \<Rightarrow> t
                   | Inl e \<Rightarrow> unavailableMessage)
             else unavailableMessage))))
   \<and> (\<not> primaryUsable ev svc (systemPrompt rules context) query
        \<and> (\<not> configured (GEMINI_API_KEY ev)
            \<or> isl (generateContent svc (fallbackPrompt rules query context))) \<longrightarrow>
        generateAnswer ev svc rules query context = Inr (Some (JStr unavailableMessage)))"
proof -
  let ?p = "systemPrompt rules context"
  have total: "\<exists>v. generateAnswer ev svc rules query context = Inr v"
    by (auto simp: generateAnswer_def Let_def andThen_def tryCatch_caught
        split: option.splits sum.splits)
  have fb: "generateAnswer ev svc rules query context =
          Inr (Some (JStr
            (if configured (GEMINI_API_KEY ev)
             then (case generateContent svc (fallbackPrompt rules query context) of
                     Inr t \<Rightarrow> t
                   | Inl e \<Rightarrow> unavailableMessage)
             else unavailableMessage)))"
    if un: "\<not> primaryUsable ev svc ?p query"
  proof -
    have first: "(case OPENROUTER_API_KEY ev of
           Some key \<Rightarrow>
             if configured (Some key)
             then tryCatch (primaryAttempt svc key ?p query) (\<lambda>e. Inr None)
             else Inr None
         | None \<Rightarrow> Inr None) = Inr None"
      using primary_unusable [OF un] by (auto split: option.splits)
    show ?thesis
      unfolding generateAnswer_def Let_def first
      by (simp add: andThen_def fallback_result fallbackPrompt_def split: sum.splits)
  qed
  show ?thesis using total fb by (auto simp: isl_def)
qed

theorem generateAnswer_never_raises_witness:
  "\<not> primaryUsable noCredentials rejecting (systemPrompt [] []) (str ''Who are you?'')
   \<and> \<not> configured (GEMINI_API_KEY noCredentials)
   \<and> generateAnswer noCredentials rejecting [] (str ''Who are you?'') []
       = Inr (Some (JStr unavailableMessage))
   \<and> \<not> primaryUsable bothCredentials exampleServices (systemPrompt [] []) (str ''Who are you?'')
   \<and> generateAnswer bothCredentials exampleServices [] (str ''Who are you?'') []
       = Inr (Some (JStr (str ''From the newsletters.'')))"
  using generateAnswer_never_raises [of noCredentials rejecting "[]" "str ''Who are you?''" "[]"]
    generateAnswer_never_raises [of bothCredentials exampleServices "[]" "str ''Who are you?''" "[]"]
  by (simp add: primaryUsable_def noCredentials_def bothCredentials_def rejecting_def
      exampleServices_def messageContent_def andThen_def optIndex0_def optProp_def nullish_def
      str_def)

section \<open>Properties of the cache\<close>

subsection \<open>Loading the cache\<close>

lemma loadCache_unreadable:
  "loadCache coerce Missing = Inr None" "loadCache coerce Unreadable = Inr None"
  "loadCache coerce Malformed = Inr None"
  by (simp_all add: loadCache_def tryCatch_def andThen_def)

lemma loadCache_empty: "loadCache coerce (Contents (JArr [])) = Inr None"
  by (simp add: loadCache_def tryCatch_def andThen_def cacheUsable_def)

lemma loadCache_no_embedding:
  "\<not> hasField x (str ''embedding'') \<Longrightarrow> loadCache coerce (Contents (JArr (x # xs))) = Inr None"
  by (cases x) (simp_all add: loadCache_def tryCatch_def andThen_def cacheUsable_def)

lemma loadCache_total: "\<exists>r. loadCache coerce f = Inr r"
  by (cases "andThen (readCache f) (\<lambda>cached.
         andThen (cacheUsable coerce cached) (\<lambda>usable.
           Inr (if usable then Some cached else None)))")
    (simp_all add: loadCache_def tryCatch_def)

text \<open>
  C3. Whatever is at the path of the cache, the block that tries the cache does not
  throw. When the cache file is absent, cannot be read, is not JSON, holds the empty
  list, or holds a list whose first element is not an object with an \<open>embedding\<close>
  property, the block does not take the cache either, and a process that is not
  initialized yet does exactly what the regeneration does.
\<close>

theorem cache_fails_soft:
  assumes "\<not> isInitialized s"
    and "cache s = Missing \<or> cache s = Unreadable \<or> cache s = Malformed
       \<or> cache s = Contents (JArr [])
       \<or> (\<exists>x xs. cache s = Contents (JArr (x # xs)) \<and> \<not> hasField x (str ''embedding''))"
  shows "(\<exists>r. loadCache coerce f = Inr r)
    \<and> loadCache coerce (cache s) = Inr None
    \<and> initializeChunks coerce ev svc s = regenerate ev svc s"
proof -
  have "loadCache coerce (cache s) = Inr None"
    using assms(2) loadCache_unreadable [of coerce] loadCache_empty [of coerce]
      loadCache_no_embedding [of _ coerce]
    by auto
  then show ?thesis using assms(1) loadCache_total [of coerce f]
    by (simp add: initializeChunks_def)
qed

theorem cache_fails_soft_witness:
  "\<not> isInitialized staleCache
   \<and> loadCache noCoercion (cache staleCache) = Inr None
   \<and> initializeChunks noCoercion bothCredentials exampleServices staleCache
       = regenerate bothCredentials exampleServices staleCache"
  using cache_fails_soft [where s = staleCache and coerce = noCoercion and f = Malformed
      and ev = bothCredentials and svc = exampleServices]
  by (simp add: staleCache_def str_def)

subsection \<open>Population\<close>

lemma embedLoop_concat:
  "embedLoop ev svc i cs acc = Inr (acc @ concat (map (embeddedAt ev svc) (enumerate i cs)))"
proof (induction cs arbitrary: i acc)
  case Nil
  then show ?case by simp
next
  case (Cons c cs)
  show ?case
    by (cases "getEmbedding ev svc i (text' c)")
      (simp_all add: Cons.IH andThen_def tryCatch_def embeddedAt_def)
qed

lemma concat_map_if:
  "concat (map (\<lambda>x. if P x then [f x] else []) xs) = map f (filter P xs)"
  by (induction xs) auto

lemma enumerate_nth: "enumerate 0 xs = map (\<lambda>j. (j, xs ! j)) [0..<length xs]"
  by (rule nth_equalityI) (simp_all add: nth_enumerate_eq)

lemma embedded_one_failure:
  assumes k: "k < length raw"
    and fail: "getEmbedding ev svc k (text' (raw ! k)) = Inl err"
    and ok: "\<forall>j < length raw. j \<noteq> k \<longrightarrow> getEmbedding ev svc j (text' (raw ! j)) = Inr (embs j)"
  shows "embedLoop ev svc 0 raw [] =
     Inr (map (\<lambda>j. withEmbedding (raw ! j) (embs j)) (filter (\<lambda>j. j \<noteq> k) [0..<length raw]))"
proof -
  have "map (embeddedAt ev svc) (enumerate 0 raw) =
      map (\<lambda>j. if j \<noteq> k then [withEmbedding (raw ! j) (embs j)] else []) [0..<length raw]"
    unfolding enumerate_nth using fail ok by (auto simp: embeddedAt_def)
  then show ?thesis
    by (simp add: embedLoop_concat concat_map_if)
qed

text \<open>
  C6. Take a process that is not initialized, with a cache that is not taken, a corpus
  that can be read and a cache that can be written. If the corpus gives at least two
  chunks and the embedding fails for the chunk of index \<open>k\<close> and succeeds for every
  other, then \<open>initializeChunks\<close> returns without an error, and both the chunk list in
  memory and the cache hold the chunks other than the one of index \<open>k\<close>, each with its
  embedding, in the order of the corpus; there is at least one.
\<close>

theorem population_skips_failure:
  assumes cold: "\<not> isInitialized s" "loadCache coerce (cache s) = Inr None"
    and files: "corpus s = Some content" "cacheWritable s"
    and raw: "raw = splitIntoChunks content" "2 \<le> length raw"
    and k: "k < length raw"
    and fail: "getEmbedding ev svc k (text' (raw ! k)) = Inl err"
    and ok: "\<forall>j < length raw. j \<noteq> k \<longrightarrow> getEmbedding ev svc j (text' (raw ! j)) = Inr (embs j)"
  shows "\<exists>embedded.
      embedded = map (\<lambda>j. withEmbedding (raw ! j) (embs j)) (filter (\<lambda>j. j \<noteq> k) [0..<length raw])
    \<and> embedded \<noteq> []
    \<and> initializeChunks coerce ev svc s =
        (None, s\<lparr>chunks := JArr (map chunkJson embedded),
                 cache := Contents (JArr (map chunkJson embedded)),
                 isInitialized := True\<rparr>)"
proof -
  let ?e = "map (\<lambda>j. withEmbedding (raw ! j) (embs j)) (filter (\<lambda>j. j \<noteq> k) [0..<length raw])"
  have loop: "embedLoop ev svc 0 (splitIntoChunks content) [] = Inr ?e"
    using embedded_one_failure [OF k fail ok] raw(1) by simp
  have "(if k = 0 then 1 else 0) < length raw \<and> (if k = 0 then 1 else 0) \<noteq> k"
    using raw(2) by auto
  then obtain j :: nat where j: "j < length raw" "j \<noteq> k"
    by blast
  then have "j \<in> set (filter (\<lambda>j. j \<noteq> k) [0..<length raw])" by simp
  then have ne: "?e \<noteq> []" by (auto simp: filter_empty_conv)
  have "initializeChunks coerce ev svc s =
        (None, s\<lparr>chunks := JArr (map chunkJson ?e),
                 cache := Contents (JArr (map chunkJson ?e)),
                 isInitialized := True\<rparr>)"
    using cold files loop by (simp add: initializeChunks_def regenerate_def Let_def)
  with ne show ?thesis by blast
qed

theorem population_skips_failure_witness:
  "splitIntoChunks corpusA = [chunkA1, chunkA2]
   \<and> getEmbedding bothCredentials exampleServices 0 (text' chunkA1) = Inl BackendError
   \<and> getEmbedding bothCredentials exampleServices 1 (text' chunkA2) = Inr [1, 0]
   \<and> initializeChunks noCoercion bothCredentials exampleServices coldStart =
       (None, coldStart\<lparr>chunks := JArr [chunkJson (withEmbedding chunkA2 [1, 0])],
                cache := Contents (JArr [chunkJson (withEmbedding chunkA2 [1, 0])]),
                isInitialized := True\<rparr>)"
  using population_skips_failure [of coldStart noCoercion corpusA "[chunkA1, chunkA2]" 0
      bothCredentials exampleServices BackendError "\<lambda>j. [1, 0]"]
  by (simp add: chunks_corpusA coldStart_def loadCache_def getEmbedding_def bothCredentials_def
      exampleServices_def str_def)

end
